theory Spec2Isabelle
  imports Main "HOL-Library.Multiset"
begin

section \<open>Document-set assembly of astro-llms-txt\<close>

text \<open>
  The development embeds \<^verbatim>\<open>src/index.ts\<close> (page selection, priority keys, ordering, entry
  building, per-set assembly) and \<^verbatim>\<open>src/accessibilityTransformer.ts\<close> (the accessibility
  pruning of a hast tree). Library calls are either parameters of the model or small
  definitions that say which library behaviour they stand for.
\<close>

subsection \<open>Errors\<close>

text \<open>
  Every exception the embedded code can raise is a value: \<^verbatim>\<open>'_'.repeat(n)\<close> raises a
  RangeError for negative \<^verbatim>\<open>n\<close>; \<^verbatim>\<open>fs.access\<close> and \<^verbatim>\<open>fs.readFile\<close> reject for a
  missing file; \<^verbatim>\<open>buildEntryFromHtml\<close> throws when the main selector finds nothing;
  \<^verbatim>\<open>entryToSimpleMarkdown\<close> (not among the sources) may reject.
\<close>

datatype error =
    RangeError
  | FileNotFound string
  | MissingMainSelector string
  | MarkdownFailure

subsection \<open>Pattern matching\<close>

text \<open>
  \<^verbatim>\<open>micromatch.isMatch(str, pattern)\<close> is a library function; the model takes it as a
  parameter of type \<open>matcher\<close>. For concrete evaluation \<open>literal_match\<close> is the
  matcher restricted to patterns without glob characters, which match themselves only.
\<close>

type_synonym matcher = "string \<Rightarrow> string \<Rightarrow> bool"

definition literal_match :: matcher where
  "literal_match pn pat = (pn = pat)"

subsection \<open>Configuration and pages\<close>

text \<open>
  The \<^verbatim>\<open>DocSet\<close> interface. Optional members are options; \<^verbatim>\<open>exclude\<close> is declared
  mandatory but tested for presence by \<^verbatim>\<open>processDocSet\<close>, so it is an option too.
\<close>

record docSet =
  ds_title :: string
  ds_description :: string
  ds_url :: string
  ds_include :: "string list"
  ds_exclude :: "string list option"
  ds_promote :: "string list option"
  ds_demote :: "string list option"
  ds_onlyStructure :: "bool option"
  ds_mainSelector :: "string option"
  ds_ignoreSelectors :: "string list option"

record page =
  pathname :: string

subsection \<open>prioritizePathname\<close>

text \<open>\<^verbatim>\<open>Array.prototype.findIndex\<close>: the index of the first element passing the test, or -1.\<close>

fun findIndex :: "('a \<Rightarrow> bool) \<Rightarrow> 'a list \<Rightarrow> int" where
  "findIndex P [] = - 1"
| "findIndex P (x # xs) =
     (if P x then 0
      else (let i = findIndex P xs in if i = - 1 then - 1 else i + 1))"

text \<open>\<^verbatim>\<open>String.prototype.repeat\<close>: a negative count raises a RangeError.\<close>

definition repeat_str :: "string \<Rightarrow> int \<Rightarrow> error + string" where
  "repeat_str s n = (if n < 0 then Inl RangeError else Inr (concat (replicate (nat n) s)))"

text \<open>The local constant \<^verbatim>\<open>prefixLength\<close> of \<^verbatim>\<open>prioritizePathname\<close> (lines 229 to 235).\<close>

definition prefixLength :: "matcher \<Rightarrow> string \<Rightarrow> string list \<Rightarrow> string list \<Rightarrow> int" where
  "prefixLength isMatch pid promote demote =
     (let demoted = findIndex (\<lambda>expr. isMatch pid expr) demote;
          promoted = (if demoted > - 1 then - 1
                      else findIndex (\<lambda>expr. isMatch pid expr) promote)
      in (if promoted > - 1 then int (length promote) - promoted else 0)
         + int (length demote) - demoted - 1)"

text \<open>Absent \<^verbatim>\<open>promote\<close> and \<^verbatim>\<open>demote\<close> arguments default to the empty list.\<close>

definition prioritizePathname ::
  "matcher \<Rightarrow> string \<Rightarrow> string list option \<Rightarrow> string list option \<Rightarrow> error + string" where
  "prioritizePathname isMatch pid promote_arg demote_arg =
     (let promote = (case promote_arg of None \<Rightarrow> [] | Some p \<Rightarrow> p);
          demote = (case demote_arg of None \<Rightarrow> [] | Some d \<Rightarrow> d)
      in case repeat_str ''_'' (prefixLength isMatch pid promote demote) of
           Inl e \<Rightarrow> Inl e
         | Inr prefix \<Rightarrow> Inr (prefix @ pid))"

subsection \<open>Page selection\<close>

text \<open>
  Lines 106 to 116 of \<^verbatim>\<open>processDocSet\<close>: the path names passing some include pattern,
  then, when an exclude list is present, those passing none of its patterns.
\<close>

definition matches :: "matcher \<Rightarrow> docSet \<Rightarrow> page list \<Rightarrow> string list" where
  "matches isMatch ds pages =
     (let included = filter (\<lambda>pn. list_ex (\<lambda>pat. isMatch pn pat) (ds_include ds))
                            (map pathname pages)
      in case ds_exclude ds of
           None \<Rightarrow> included
         | Some excl \<Rightarrow> filter (\<lambda>pn. \<not> list_ex (\<lambda>pat. isMatch pn pat) excl) included)"

subsection \<open>Ordering: the collator and the sort\<close>

text \<open>
  \<^verbatim>\<open>Intl.Collator\<close> belongs to the JavaScript runtime, not to the repository. Its
  \<^verbatim>\<open>compare\<close> is modelled as the three-way lexicographic comparison of the strings'
  per-character collation weights; the weight function (the locale) is a parameter.
  \<open>code_unit_weight\<close> is the weight function of plain code-unit order, used for
  concrete evaluation on lower-case ASCII paths, where it agrees with the English
  collation on the position of the underscore before the letters.
\<close>

type_synonym collation = "char \<Rightarrow> nat"

fun compare_weights :: "nat list \<Rightarrow> nat list \<Rightarrow> int" where
  "compare_weights [] [] = 0"
| "compare_weights [] (y # ys) = - 1"
| "compare_weights (x # xs) [] = 1"
| "compare_weights (x # xs) (y # ys) =
     (if x < y then - 1 else if y < x then 1 else compare_weights xs ys)"

definition collator_compare :: "collation \<Rightarrow> string \<Rightarrow> string \<Rightarrow> int" where
  "collator_compare w a b = compare_weights (map w a) (map w b)"

definition code_unit_weight :: collation where
  "code_unit_weight c = of_char c"

text \<open>
  \<^verbatim>\<open>Array.prototype.sort\<close> with a comparison function is stable, so for a consistent
  comparator its result is the one stable ordering of the input; the model computes
  that ordering by stable insertion. The comparator of \<^verbatim>\<open>processDocSet\<close> calls
  \<^verbatim>\<open>prioritizePathname\<close>, which can raise, so the sort runs in the error sum.
\<close>

fun insert_sorted :: "('a \<Rightarrow> 'a \<Rightarrow> error + int) \<Rightarrow> 'a \<Rightarrow> 'a list \<Rightarrow> error + 'a list" where
  "insert_sorted cmp x [] = Inr [x]"
| "insert_sorted cmp x (y # ys) =
     (case cmp x y of
        Inl e \<Rightarrow> Inl e
      | Inr r \<Rightarrow>
          if r \<le> 0 then Inr (x # y # ys)
          else (case insert_sorted cmp x ys of
                  Inl e \<Rightarrow> Inl e
                | Inr zs \<Rightarrow> Inr (y # zs)))"

fun sort_with :: "('a \<Rightarrow> 'a \<Rightarrow> error + int) \<Rightarrow> 'a list \<Rightarrow> error + 'a list" where
  "sort_with cmp [] = Inr []"
| "sort_with cmp (x # xs) =
     (case sort_with cmp xs of
        Inl e \<Rightarrow> Inl e
      | Inr ys \<Rightarrow> insert_sorted cmp x ys)"

text \<open>The comparison function of lines 118 to 122.\<close>

definition compare_paths :: "matcher \<Rightarrow> collation \<Rightarrow> docSet \<Rightarrow> string \<Rightarrow> string \<Rightarrow> error + int" where
  "compare_paths isMatch w ds a b =
     (case prioritizePathname isMatch a (ds_promote ds) (ds_demote ds) of
        Inl e \<Rightarrow> Inl e
      | Inr pa \<Rightarrow>
          (case prioritizePathname isMatch b (ds_promote ds) (ds_demote ds) of
             Inl e \<Rightarrow> Inl e
           | Inr pb \<Rightarrow> Inr (collator_compare w pa pb)))"

definition sorted_paths :: "matcher \<Rightarrow> collation \<Rightarrow> docSet \<Rightarrow> page list \<Rightarrow> error + string list" where
  "sorted_paths isMatch w ds pages =
     sort_with (compare_paths isMatch w ds) (matches isMatch ds pages)"

subsection \<open>The parsed page\<close>

text \<open>
  The DOM tree that \<^verbatim>\<open>new JSDOM(html).window.document\<close> yields, as far as the code reads
  it: elements with a lower-case tag name, attributes and children; text; comments. A
  document is the list of its top-level nodes.
\<close>

datatype dnode =
    DElement string "(string \<times> string) list" "dnode list"
  | DText string
  | DComment string

fun children_of :: "dnode \<Rightarrow> dnode list" where
  "children_of (DElement t a cs) = cs"
| "children_of n = []"

text \<open>
  \<^verbatim>\<open>textContent\<close> of an element: the data of its text descendants in tree order;
  comments contribute nothing.
\<close>

fun text_data :: "dnode \<Rightarrow> string" where
  "text_data (DElement t a cs) = concat (map text_data cs)"
| "text_data (DText s) = s"
| "text_data (DComment s) = []"

definition textContent :: "dnode \<Rightarrow> string" where
  "textContent n = (case n of DComment s \<Rightarrow> s | _ \<Rightarrow> text_data n)"

text \<open>
  \<^verbatim>\<open>querySelector\<close> below a parent: the first element, in tree order, among the
  descendants that passes the selector's test; only elements are tested.
\<close>

fun query_first :: "(dnode \<Rightarrow> bool) \<Rightarrow> dnode list \<Rightarrow> dnode option" where
  "query_first P [] = None"
| "query_first P (DElement t a cs # ns) =
     (if P (DElement t a cs) then Some (DElement t a cs)
      else (case query_first P cs of
              Some m \<Rightarrow> Some m
            | None \<Rightarrow> query_first P ns))"
| "query_first P (DText s # ns) = query_first P ns"
| "query_first P (DComment s # ns) = query_first P ns"

text \<open>
  \<^verbatim>\<open>h1.remove()\<close> detaches the node that \<^verbatim>\<open>querySelector\<close> returned, that is the first
  element in tree order passing the test; \<open>remove_first\<close> deletes exactly that
  occurrence, with its subtree, from a list of sibling trees.
\<close>

fun remove_first :: "(dnode \<Rightarrow> bool) \<Rightarrow> dnode list \<Rightarrow> dnode list" where
  "remove_first P [] = []"
| "remove_first P (DElement t a cs # ns) =
     (if P (DElement t a cs) then ns
      else if query_first P cs \<noteq> None then DElement t a (remove_first P cs) # ns
      else DElement t a cs # remove_first P ns)"
| "remove_first P (DText s # ns) = DText s # remove_first P ns"
| "remove_first P (DComment s # ns) = DComment s # remove_first P ns"

text \<open>
  The mutation of \<^verbatim>\<open>main\<close> is visible through \<^verbatim>\<open>doc\<close>, which is queried again for the
  meta description: \<open>replace_first P m\<close> puts \<open>m\<close> in the place of the first element
  passing \<open>P\<close>.
\<close>

fun replace_first :: "(dnode \<Rightarrow> bool) \<Rightarrow> dnode \<Rightarrow> dnode list \<Rightarrow> dnode list" where
  "replace_first P m [] = []"
| "replace_first P m (DElement t a cs # ns) =
     (if P (DElement t a cs) then m # ns
      else if query_first P cs \<noteq> None then DElement t a (replace_first P m cs) # ns
      else DElement t a cs # replace_first P m ns)"
| "replace_first P m (DText s # ns) = DText s # replace_first P m ns"
| "replace_first P m (DComment s # ns) = DComment s # replace_first P m ns"

definition is_h1 :: "dnode \<Rightarrow> bool" where
  "is_h1 n = (case n of DElement t a cs \<Rightarrow> t = ''h1'' | _ \<Rightarrow> False)"

definition getAttribute :: "dnode \<Rightarrow> string \<Rightarrow> string option" where
  "getAttribute n name = (case n of DElement t a cs \<Rightarrow> map_of a name | _ \<Rightarrow> None)"

text \<open>
  \<^verbatim>\<open>String.prototype.trim\<close> removes the white space and the line terminators of
  ECMAScript from both ends of a string. Strings are byte lists here, text in UTF-8, so
  each of these code points is a unit of one, two or three bytes:
  \<^item> one byte: U+0009 to U+000D and U+0020;
  \<^item> two bytes: U+00A0 (C2 A0);
  \<^item> three bytes: U+1680 (E1 9A 80), U+2000 to U+200A (E2 80 80 to E2 80 8A), U+2028 and
    U+2029 (E2 80 A8, E2 80 A9), U+202F (E2 80 AF), U+205F (E2 81 9F), U+3000 (E3 80 80)
    and U+FEFF (EF BB BF).
  \<open>ws_len\<close> is the length of the unit a string starts with (0 when it starts with
  none), \<open>ws_len_rev\<close> the length of the unit it ends with, read from the reversed
  string; \<open>strip_units\<close> removes units from the front as long as there is one.
\<close>

definition ws1 :: "char \<Rightarrow> bool" where
  "ws1 c = (c \<in> set [CHR 0x09, CHR 0x0A, CHR 0x0B, CHR 0x0C, CHR 0x0D, CHR 0x20])"

definition ws2 :: "char \<Rightarrow> char \<Rightarrow> bool" where
  "ws2 c1 c2 = (c1 = CHR 0xC2 \<and> c2 = CHR 0xA0)"

definition ws3 :: "char \<Rightarrow> char \<Rightarrow> char \<Rightarrow> bool" where
  "ws3 c1 c2 c3 =
     ((c1 = CHR 0xE1 \<and> c2 = CHR 0x9A \<and> c3 = CHR 0x80)
      \<or> (c1 = CHR 0xE2 \<and> c2 = CHR 0x80
          \<and> c3 \<in> set [CHR 0x80, CHR 0x81, CHR 0x82, CHR 0x83, CHR 0x84, CHR 0x85, CHR 0x86,
                        CHR 0x87, CHR 0x88, CHR 0x89, CHR 0x8A, CHR 0xA8, CHR 0xA9, CHR 0xAF])
      \<or> (c1 = CHR 0xE2 \<and> c2 = CHR 0x81 \<and> c3 = CHR 0x9F)
      \<or> (c1 = CHR 0xE3 \<and> c2 = CHR 0x80 \<and> c3 = CHR 0x80)
      \<or> (c1 = CHR 0xEF \<and> c2 = CHR 0xBB \<and> c3 = CHR 0xBF))"

fun ws_len :: "string \<Rightarrow> nat" where
  "ws_len [] = 0"
| "ws_len [c1] = (if ws1 c1 then 1 else 0)"
| "ws_len [c1, c2] = (if ws1 c1 then 1 else if ws2 c1 c2 then 2 else 0)"
| "ws_len (c1 # c2 # c3 # r) =
     (if ws1 c1 then 1 else if ws2 c1 c2 then 2 else if ws3 c1 c2 c3 then 3 else 0)"

fun ws_len_rev :: "string \<Rightarrow> nat" where
  "ws_len_rev [] = 0"
| "ws_len_rev [c1] = (if ws1 c1 then 1 else 0)"
| "ws_len_rev [c1, c2] = (if ws1 c1 then 1 else if ws2 c2 c1 then 2 else 0)"
| "ws_len_rev (c1 # c2 # c3 # r) =
     (if ws1 c1 then 1 else if ws2 c2 c1 then 2 else if ws3 c3 c2 c1 then 3 else 0)"

function strip_units :: "(string \<Rightarrow> nat) \<Rightarrow> string \<Rightarrow> string" where
  "strip_units len s =
     (if len s = 0 \<or> s = [] then s else strip_units len (drop (len s) s))"
  by pat_completeness auto
termination
  by (relation "measure (\<lambda>(len, s). length s)") auto

declare strip_units.simps [simp del]

definition trim :: "string \<Rightarrow> string" where
  "trim s = rev (strip_units ws_len_rev (rev (strip_units ws_len s)))"

text \<open>\<^verbatim>\<open>Array.prototype.join\<close>.\<close>

fun join_with :: "string \<Rightarrow> string list \<Rightarrow> string" where
  "join_with sep [] = []"
| "join_with sep [x] = x"
| "join_with sep (x # y # ys) = x @ sep @ join_with sep (y # ys)"

subsection \<open>The host\<close>

text \<open>
  What the code takes from its libraries and from the build, as one record:
  \<^item> \<open>isMatch\<close>: \<^verbatim>\<open>micromatch.isMatch\<close>;
  \<^item> \<open>weight\<close>: the collation of the configured locale;
  \<^item> \<open>readFile\<close>: \<^verbatim>\<open>fs.access\<close> followed by \<^verbatim>\<open>fs.readFile\<close>, \<open>None\<close> when either rejects;
  \<^item> \<open>parseHtml\<close>: the JSDOM parser;
  \<^item> \<open>selects\<close>: the selector engine, \<open>selects sel n\<close> when element \<open>n\<close> matches the
    selector text \<open>sel\<close> (selectors that look at an element's ancestors, and selector
    texts that the engine rejects, are outside this model);
  \<^item> \<open>entryToSimpleMarkdown\<close>: the repository's converter, which is not among the
    sources; it receives the nodes whose serialisation \<^verbatim>\<open>main.innerHTML\<close> is, and
    \<open>None\<close> stands for a rejected promise;
  \<^item> \<open>path_join\<close>: \<^verbatim>\<open>path.join\<close>.
\<close>

record host =
  isMatch :: matcher
  weight :: collation
  readFile :: "string \<Rightarrow> string option"
  parseHtml :: "string \<Rightarrow> dnode list"
  selects :: "string \<Rightarrow> dnode \<Rightarrow> bool"
  entryToSimpleMarkdown :: "dnode list \<Rightarrow> string list \<Rightarrow> bool \<Rightarrow> string option"
  path_join :: "string list \<Rightarrow> string"

subsection \<open>buildEntryFromHtml\<close>

text \<open>The title of lines 163 and 164, and the content left by line 165.\<close>

definition title_of :: "dnode \<Rightarrow> string" where
  "title_of main =
     (case query_first is_h1 (children_of main) of
        None \<Rightarrow> ''Untitled''
      | Some h1 \<Rightarrow> trim (textContent h1))"

definition content_of :: "dnode \<Rightarrow> dnode list" where
  "content_of main =
     (case query_first is_h1 (children_of main) of
        None \<Rightarrow> children_of main
      | Some h1 \<Rightarrow> remove_first is_h1 (children_of main))"

definition with_children :: "dnode \<Rightarrow> dnode list \<Rightarrow> dnode" where
  "with_children n cs = (case n of DElement t a old \<Rightarrow> DElement t a cs | _ \<Rightarrow> n)"

definition meta_selector :: string where
  "meta_selector = ''meta[name='' @ [CHR 0x22] @ ''description'' @ [CHR 0x22] @ '']''"

definition metaDesc_of :: "host \<Rightarrow> dnode list \<Rightarrow> string option" where
  "metaDesc_of h doc =
     (case query_first (selects h meta_selector) doc of
        None \<Rightarrow> None
      | Some m \<Rightarrow> (case getAttribute m ''content'' of
                    None \<Rightarrow> None
                  | Some c \<Rightarrow> Some (trim c)))"

definition newline2 :: string where
  "newline2 = [CHR 0x0A, CHR 0x0A]"

definition buildEntryFromHtml ::
  "host \<Rightarrow> string \<Rightarrow> string option \<Rightarrow> string list option \<Rightarrow> bool \<Rightarrow> error + string" where
  "buildEntryFromHtml h htmlPath mainSelector_arg ignoreSelectors_arg onlyStructure =
     (let mainSelector = (case mainSelector_arg of None \<Rightarrow> ''main'' | Some s \<Rightarrow> s);
          ignoreSelectors = (case ignoreSelectors_arg of None \<Rightarrow> [] | Some l \<Rightarrow> l)
      in case readFile h htmlPath of
           None \<Rightarrow> Inl (FileNotFound htmlPath)
         | Some html \<Rightarrow>
             (let doc = parseHtml h html
              in case query_first (selects h mainSelector) doc of
                   None \<Rightarrow> Inl (MissingMainSelector mainSelector)
                 | Some main \<Rightarrow>
                     (let title = title_of main;
                          content = content_of main;
                          doc' = replace_first (selects h mainSelector)
                                   (with_children main content) doc;
                          metaDesc = metaDesc_of h doc'
                      in case entryToSimpleMarkdown h content
                                (''h1'' # ''footer'' # ''header'' # ignoreSelectors)
                                onlyStructure of
                           None \<Rightarrow> Inl MarkdownFailure
                         | Some markdown \<Rightarrow>
                             Inr (join_with newline2
                                    ([''# '' @ title]
                                     @ (case metaDesc of
                                          None \<Rightarrow> []
                                        | Some d \<Rightarrow> if d = [] then [] else [''> '' @ d])
                                     @ [trim markdown])))))"

subsection \<open>processDocSet\<close>

text \<open>
  The console and the artifact. \<open>not_found_prefix\<close> is the text before the path in the
  message of line 133 (a cross mark, three bytes in UTF-8, and the words);
  \<open>generated_message\<close> is the line printed at the end (line 142).
\<close>

datatype console_line = ConsoleError string | ConsoleLog string

definition not_found_prefix :: string where
  "not_found_prefix = [CHR 0xE2, CHR 0x9D, CHR 0x8C] @ '' File not found: ''"

definition generated_message :: "string \<Rightarrow> string \<Rightarrow> string" where
  "generated_message t out =
     [CHR 0xE2, CHR 0x9C, CHR 0x85] @ '' DocSet '' @ [CHR 0x22] @ t @ [CHR 0x22]
     @ '' generated at '' @ out"

definition strip_trailing_slash :: "string \<Rightarrow> string" where
  "strip_trailing_slash pn = (if pn \<noteq> [] \<and> last pn = CHR ''/'' then butlast pn else pn)"

definition strip_leading_slash :: "string \<Rightarrow> string" where
  "strip_leading_slash u = (case u of [] \<Rightarrow> [] | c # cs \<Rightarrow> if c = CHR ''/'' then cs else u)"

definition htmlPath_of :: "host \<Rightarrow> string \<Rightarrow> string \<Rightarrow> string" where
  "htmlPath_of h distDir pn = path_join h [distDir, strip_trailing_slash pn, ''index.html'']"

text \<open>
  The loop of lines 126 to 135, with the entries and the console as its state: a page
  whose entry cannot be built adds one error line and no entry.
\<close>

fun process_pages ::
  "host \<Rightarrow> docSet \<Rightarrow> string \<Rightarrow> string list \<Rightarrow> string list \<times> console_line list
     \<Rightarrow> string list \<times> console_line list" where
  "process_pages h ds distDir [] st = st"
| "process_pages h ds distDir (pn # pns) (entries, console) =
     (let htmlPath = htmlPath_of h distDir pn
      in case buildEntryFromHtml h htmlPath (ds_mainSelector ds) (ds_ignoreSelectors ds)
                (case ds_onlyStructure ds of None \<Rightarrow> False | Some b \<Rightarrow> b) of
           Inr entry \<Rightarrow> process_pages h ds distDir pns (entries @ [entry], console)
         | Inl e \<Rightarrow>
             process_pages h ds distDir pns
               (entries, console @ [ConsoleError (not_found_prefix @ htmlPath)]))"

record artifact =
  outPath :: string
  content :: string
  entries :: "string list"
  console :: "console_line list"

text \<open>
  \<^verbatim>\<open>processDocSet\<close>: what it writes (path and content), the entries the content joins,
  and the console lines it printed. The file system writes themselves are not modelled.
\<close>

definition processDocSet :: "host \<Rightarrow> string \<Rightarrow> string \<Rightarrow> page list \<Rightarrow> docSet \<Rightarrow> error + artifact" where
  "processDocSet h distDir pageSeparator pages ds =
     (case sorted_paths (isMatch h) (weight h) ds pages of
        Inl e \<Rightarrow> Inl e
      | Inr sorted_pns \<Rightarrow>
          (let (es, con) = process_pages h ds distDir sorted_pns ([], []);
               out = path_join h [distDir, strip_leading_slash (ds_url ds)]
           in Inr \<lparr> outPath = out,
                    content = ''<SYSTEM>'' @ ds_description ds @ ''</SYSTEM>'' @ newline2
                              @ join_with pageSeparator es,
                    entries = es,
                    console = con @ [ConsoleLog (generated_message (ds_title ds) out)] \<rparr>))"

subsection \<open>The hast tree\<close>

text \<open>
  \<^verbatim>\<open>accessibilityTransformer\<close> works on a hast tree: a root, elements with a tag name, a
  property object and children, text, comments and the doctype. A property value is a
  string, a boolean, a number, a list of strings or null; a property that is not set is
  absent from the association list. The transformer copies a property value into a text
  node behind a type cast that does nothing at run time, so a text node holds a property
  value; the parser only makes text nodes that hold strings.
\<close>

datatype pval = PStr string | PBool bool | PNum int | PList "string list" | PNull

datatype hnode =
    HRoot "hnode list"
  | HElement string "(string \<times> pval) list" "hnode list"
  | HText pval
  | HComment string
  | HDoctype

fun hchildren :: "hnode \<Rightarrow> hnode list" where
  "hchildren (HRoot cs) = cs"
| "hchildren (HElement t p cs) = cs"
| "hchildren (HText v) = []"
| "hchildren (HComment s) = []"
| "hchildren HDoctype = []"

text \<open>All nodes of a list of sibling trees, in tree order, and the nodes below a node.\<close>

fun subtrees :: "hnode list \<Rightarrow> hnode list" where
  "subtrees [] = []"
| "subtrees (HRoot cs # ns) = HRoot cs # subtrees cs @ subtrees ns"
| "subtrees (HElement t p cs # ns) = HElement t p cs # subtrees cs @ subtrees ns"
| "subtrees (HText v # ns) = HText v # subtrees ns"
| "subtrees (HComment s # ns) = HComment s # subtrees ns"
| "subtrees (HDoctype # ns) = HDoctype # subtrees ns"

definition descendants :: "hnode \<Rightarrow> hnode list" where
  "descendants t = subtrees (hchildren t)"

subsection \<open>unist-util-remove\<close>

text \<open>
  \<^verbatim>\<open>remove(tree, test)\<close> of the library unist-util-remove (version 4): walking the
  children of a parent in order, a node that passes the test is dropped with its subtree;
  with the option \<^verbatim>\<open>cascade\<close>, a parent that had children and lost all of them is
  dropped too; the tree passed in is neither tested nor dropped. \<open>prune\<close> is the walk
  over a list of children, \<open>remove\<close> the call on the tree. The transformer passes no
  options, and the library's default is \<^verbatim>\<open>cascade: true\<close>.
\<close>

fun prune :: "bool \<Rightarrow> (hnode \<Rightarrow> bool) \<Rightarrow> hnode list \<Rightarrow> hnode list" where
  "prune cascade test [] = []"
| "prune cascade test (HRoot cs # ns) =
     (if test (HRoot cs) then prune cascade test ns
      else if cs = [] then HRoot cs # prune cascade test ns
      else (let cs' = prune cascade test cs
            in if cascade \<and> cs' = [] then prune cascade test ns
               else HRoot cs' # prune cascade test ns))"
| "prune cascade test (HElement t p cs # ns) =
     (if test (HElement t p cs) then prune cascade test ns
      else if cs = [] then HElement t p cs # prune cascade test ns
      else (let cs' = prune cascade test cs
            in if cascade \<and> cs' = [] then prune cascade test ns
               else HElement t p cs' # prune cascade test ns))"
| "prune cascade test (HText v # ns) =
     (if test (HText v) then prune cascade test ns else HText v # prune cascade test ns)"
| "prune cascade test (HComment s # ns) =
     (if test (HComment s) then prune cascade test ns else HComment s # prune cascade test ns)"
| "prune cascade test (HDoctype # ns) =
     (if test HDoctype then prune cascade test ns else HDoctype # prune cascade test ns)"

definition remove :: "bool \<Rightarrow> (hnode \<Rightarrow> bool) \<Rightarrow> hnode \<Rightarrow> hnode" where
  "remove cascade test tree =
     (case tree of
        HRoot cs \<Rightarrow> HRoot (prune cascade test cs)
      | HElement t p cs \<Rightarrow> HElement t p (prune cascade test cs)
      | _ \<Rightarrow> tree)"

subsection \<open>accessibilityTransformer\<close>

text \<open>The two tests of lines 14 to 18 and 21 to 26.\<close>

definition aria_hidden :: "hnode \<Rightarrow> bool" where
  "aria_hidden node =
     (case node of
        HElement t p cs \<Rightarrow>
          map_of p ''ariaHidden'' = Some (PBool True) \<or> map_of p ''ariaHidden'' = Some (PStr ''true'')
      | _ \<Rightarrow> False)"

definition decorative_img :: "hnode \<Rightarrow> bool" where
  "decorative_img node =
     (case node of
        HElement t p cs \<Rightarrow> t = ''img'' \<and> map_of p ''alt'' = Some (PStr [])
      | _ \<Rightarrow> False)"

text \<open>
  \<^verbatim>\<open>selectAll('[aria-label]', tree)\<close> of hast-util-select selects the elements whose
  \<^verbatim>\<open>ariaLabel\<close> property counts as a present attribute: set, and not null, false or an
  empty list.
\<close>

definition attribute_present :: "pval option \<Rightarrow> bool" where
  "attribute_present v =
     (case v of
        None \<Rightarrow> False
      | Some PNull \<Rightarrow> False
      | Some (PBool b) \<Rightarrow> b
      | Some (PList l) \<Rightarrow> l \<noteq> []
      | Some (PNum n) \<Rightarrow> True
      | Some (PStr s) \<Rightarrow> True)"

text \<open>JavaScript truthiness of a property value, as \<^verbatim>\<open>if (ariaLabelValue)\<close> reads it.\<close>

definition truthy :: "pval \<Rightarrow> bool" where
  "truthy v =
     (case v of
        PStr s \<Rightarrow> s \<noteq> []
      | PBool b \<Rightarrow> b
      | PNum n \<Rightarrow> n \<noteq> 0
      | PList l \<Rightarrow> True
      | PNull \<Rightarrow> False)"

text \<open>
  Lines 32 to 41 and the test of line 44: the label that replaces the children of a
  selected element, if any.
\<close>

definition ariaLabelValue :: "(string \<times> pval) list \<Rightarrow> pval option" where
  "ariaLabelValue p =
     (case map_of p ''ariaLabel'' of
        None \<Rightarrow> None
      | Some v \<Rightarrow>
          if attribute_present (Some v) \<and> v \<noteq> PNull \<and> v \<noteq> PStr [] \<and> truthy v
          then Some v else None)"

text \<open>
  The loop of lines 31 to 54 gives every selected element with a label the label as its
  only child. The elements were all selected before the loop changes anything; one that
  lies below another labelled element is changed as well but is no longer part of the
  tree. On the tree the loop therefore acts from the top down: a labelled element gets
  its text child, and the walk continues below the elements that have no label.
\<close>

fun relabel :: "hnode \<Rightarrow> hnode" where
  "relabel (HRoot cs) = HRoot (map relabel cs)"
| "relabel (HElement t p cs) =
     (case ariaLabelValue p of
        Some v \<Rightarrow> HElement t p [HText v]
      | None \<Rightarrow> HElement t p (map relabel cs))"
| "relabel (HText v) = HText v"
| "relabel (HComment s) = HComment s"
| "relabel HDoctype = HDoctype"

definition accessibilityTransformer :: "hnode \<Rightarrow> hnode" where
  "accessibilityTransformer tree =
     relabel (remove True decorative_img (remove True aria_hidden tree))"

subsection \<open>Notions used to state the properties\<close>

text \<open>The pattern lists a set is sorted with, and the key \<^verbatim>\<open>prioritizePathname\<close> returns.\<close>

definition promote_of :: "docSet \<Rightarrow> string list" where
  "promote_of ds = (case ds_promote ds of None \<Rightarrow> [] | Some p \<Rightarrow> p)"

definition demote_of :: "docSet \<Rightarrow> string list" where
  "demote_of ds = (case ds_demote ds of None \<Rightarrow> [] | Some d \<Rightarrow> d)"

definition bias :: "matcher \<Rightarrow> docSet \<Rightarrow> string \<Rightarrow> int" where
  "bias m ds pn = prefixLength m pn (promote_of ds) (demote_of ds)"

definition sort_key :: "matcher \<Rightarrow> docSet \<Rightarrow> string \<Rightarrow> string" where
  "sort_key m ds pn = replicate (nat (bias m ds pn)) CHR ''_'' @ pn"

subsection \<open>Sample inputs\<close>

text \<open>Two small document sets and page lists on which the properties are evaluated.\<close>

definition sample_set :: docSet where
  "sample_set = \<lparr> ds_title = ''Docs'', ds_description = ''The docs'', ds_url = ''/llms-full.txt'',
      ds_include = [''docs/a'', ''docs/b'', ''docs/c''], ds_exclude = Some [''docs/c''],
      ds_promote = Some [''docs/b''], ds_demote = None,
      ds_onlyStructure = None, ds_mainSelector = None, ds_ignoreSelectors = None \<rparr>"

definition sample_pages :: "page list" where
  "sample_pages = [\<lparr> pathname = ''docs/a'' \<rparr>, \<lparr> pathname = ''docs/b'' \<rparr>,
                   \<lparr> pathname = ''docs/c'' \<rparr>, \<lparr> pathname = ''blog/x'' \<rparr>]"

definition ranked_set :: docSet where
  "ranked_set = \<lparr> ds_title = ''Docs'', ds_description = ''The docs'', ds_url = ''/llms-full.txt'',
      ds_include = [''docs/a'', ''docs/b'', ''docs/c'', ''docs/d''], ds_exclude = None,
      ds_promote = Some [''docs/c'', ''docs/b''], ds_demote = Some [''docs/a''],
      ds_onlyStructure = None, ds_mainSelector = None, ds_ignoreSelectors = None \<rparr>"

definition ranked_pages :: "page list" where
  "ranked_pages = [\<lparr> pathname = ''docs/a'' \<rparr>, \<lparr> pathname = ''docs/b'' \<rparr>,
                   \<lparr> pathname = ''docs/c'' \<rparr>, \<lparr> pathname = ''docs/d'' \<rparr>]"



subsection \<open>White space\<close>

text \<open>
  The white space and line terminator code points of ECMAScript in UTF-8, one list of
  bytes each: a string of white space only is a concatenation of these.
\<close>

definition white_space_units :: "string list" where
  "white_space_units =
     [[CHR 0x09], [CHR 0x0A], [CHR 0x0B], [CHR 0x0C], [CHR 0x0D], [CHR 0x20],
      [CHR 0xC2, CHR 0xA0],
      [CHR 0xE1, CHR 0x9A, CHR 0x80],
      [CHR 0xE2, CHR 0x80, CHR 0x80], [CHR 0xE2, CHR 0x80, CHR 0x81],
      [CHR 0xE2, CHR 0x80, CHR 0x82], [CHR 0xE2, CHR 0x80, CHR 0x83],
      [CHR 0xE2, CHR 0x80, CHR 0x84], [CHR 0xE2, CHR 0x80, CHR 0x85],
      [CHR 0xE2, CHR 0x80, CHR 0x86], [CHR 0xE2, CHR 0x80, CHR 0x87],
      [CHR 0xE2, CHR 0x80, CHR 0x88], [CHR 0xE2, CHR 0x80, CHR 0x89],
      [CHR 0xE2, CHR 0x80, CHR 0x8A],
      [CHR 0xE2, CHR 0x80, CHR 0xA8], [CHR 0xE2, CHR 0x80, CHR 0xA9],
      [CHR 0xE2, CHR 0x80, CHR 0xAF],
      [CHR 0xE2, CHR 0x81, CHR 0x9F],
      [CHR 0xE3, CHR 0x80, CHR 0x80],
      [CHR 0xEF, CHR 0xBB, CHR 0xBF]]"

subsection \<open>Serialised content\<close>

text \<open>
  The token sequence of a list of sibling trees, the way \<^verbatim>\<open>innerHTML\<close> writes them out:
  an element contributes its start tag, its children and its end tag. It is used to
  say what a removal leaves of the content.
\<close>

datatype token = Open string "(string \<times> string) list" | Close string | Chars string | Remark string

fun tokens :: "dnode list \<Rightarrow> token list" where
  "tokens [] = []"
| "tokens (DElement t a cs # ns) = Open t a # tokens cs @ Close t # tokens ns"
| "tokens (DText s # ns) = Chars s # tokens ns"
| "tokens (DComment s # ns) = Remark s # tokens ns"

text \<open>The call of \<^verbatim>\<open>buildEntryFromHtml\<close> that the loop of \<^verbatim>\<open>processDocSet\<close> makes for a page.\<close>

definition page_entry :: "host \<Rightarrow> docSet \<Rightarrow> string \<Rightarrow> string \<Rightarrow> error + string" where
  "page_entry h ds distDir pn =
     buildEntryFromHtml h (htmlPath_of h distDir pn) (ds_mainSelector ds) (ds_ignoreSelectors ds)
       (case ds_onlyStructure ds of None \<Rightarrow> False | Some b \<Rightarrow> b)"

subsection \<open>A sample host\<close>

text \<open>
  A host for evaluation. Its selector engine knows tag selectors only; its converter
  returns the text of the nodes; its file system holds the pages \<^verbatim>\<open>docs/a\<close> and
  \<^verbatim>\<open>docs/d\<close> with a main element, the page \<^verbatim>\<open>docs/c\<close> without one, and no file for
  \<^verbatim>\<open>docs/b\<close>; a file's text is its name and the parser looks the tree up.
\<close>

definition sample_main :: dnode where
  "sample_main =
     DElement ''main'' []
       [DElement ''div'' [] [DText ''intro''],
        DElement ''h1'' [] [DText '' Page '', DElement ''em'' [] [DText ''A''], DText '' ''],
        DElement ''p'' [] [DText ''body''],
        DElement ''h1'' [] [DText ''second'']]"

definition blank_main :: dnode where
  "blank_main =
     DElement ''main'' []
       [DElement ''h1'' [] [DText ''  '', DComment ''draft'', DText [CHR 0xC2, CHR 0xA0, CHR 0x0A]],
        DElement ''p'' [] [DText ''body'']]"

definition plain_main :: dnode where
  "plain_main = DElement ''main'' [] [DElement ''p'' [] [DText ''only text'']]"

definition tag_selects :: "string \<Rightarrow> dnode \<Rightarrow> bool" where
  "tag_selects sel n = (case n of DElement t a cs \<Rightarrow> t = sel | _ \<Rightarrow> False)"

definition sample_host :: host where
  "sample_host =
     \<lparr> isMatch = literal_match,
       weight = code_unit_weight,
       readFile = (\<lambda>p. if p \<in> set [''dist/docs/a/index.html'', ''dist/docs/c/index.html'',
                                      ''dist/docs/d/index.html'']
                        then Some p else None),
       parseHtml = (\<lambda>html. if html = ''dist/docs/a/index.html''
                             then [DElement ''html'' [] [DElement ''body'' [] [sample_main]]]
                           else if html = ''dist/docs/d/index.html''
                             then [DElement ''html'' [] [DElement ''body'' [] [plain_main]]]
                           else [DElement ''html'' [] [DElement ''body'' [] [DText ''no main'']]]),
       selects = tag_selects,
       entryToSimpleMarkdown = (\<lambda>nodes ignored structure. Some (concat (map text_data nodes))),
       path_join = join_with ''/'' \<rparr>"

subsection \<open>Notions used for the transformer\<close>

text \<open>
  A node without its children: the tests of the transformer read nothing else; and the
  label that the loop gives a node, if it is an element with a label to apply. The
  sample tree has a hidden element with content, an element whose only child is hidden,
  a decorative image beside a described one, and a labelled link with content.
\<close>

fun shell :: "hnode \<Rightarrow> hnode" where
  "shell (HRoot cs) = HRoot []"
| "shell (HElement t p cs) = HElement t p []"
| "shell (HText v) = HText v"
| "shell (HComment s) = HComment s"
| "shell HDoctype = HDoctype"

definition label_of :: "hnode \<Rightarrow> pval option" where
  "label_of n = (case n of HElement t p cs \<Rightarrow> ariaLabelValue p | _ \<Rightarrow> None)"



definition sample_tree :: hnode where
  "sample_tree =
     HRoot
       [HElement ''nav'' [(''ariaHidden'', PStr ''true'')] [HElement ''a'' [] [HText (PStr ''skip'')]],
        HElement ''div'' [] [HElement ''span'' [(''ariaHidden'', PBool True)] [HText (PStr ''x'')]],
        HElement ''p'' []
          [HElement ''img'' [(''alt'', PStr [])] [],
           HElement ''img'' [(''alt'', PStr ''chart'')] [],
           HText (PStr ''text'')],
        HElement ''a'' [(''ariaLabel'', PStr ''Home'')]
          [HElement ''svg'' [] [], HText (PStr ''icon'')],
        HElement ''b'' [(''ariaLabel'', PStr [])] [HText (PStr ''kept'')]]"




section \<open>Properties\<close>

subsection \<open>The priority key\<close>

lemma findIndex_range: "- 1 \<le> findIndex P xs \<and> findIndex P xs < int (length xs)"
  by (induction xs) (auto simp: Let_def)

lemma findIndex_none: "(findIndex P xs = - 1) = (\<forall>x \<in> set xs. \<not> P x)"
proof (induction xs)
  case Nil
  show ?case by simp
next
  case (Cons x xs)
  have "- 1 \<le> findIndex P xs" using findIndex_range [of P xs] by simp
  with Cons show ?case by (auto simp: Let_def)
qed

lemma findIndex_first:
  "i < length xs \<Longrightarrow> P (xs ! i) \<Longrightarrow> (\<forall>j < i. \<not> P (xs ! j)) \<Longrightarrow> findIndex P xs = int i"
proof (induction xs arbitrary: i)
  case Nil
  then show ?case by simp
next
  case (Cons x xs)
  show ?case
  proof (cases i)
    case 0
    with Cons.prems show ?thesis by simp
  next
    case (Suc k)
    with Cons.prems have k: "k < length xs" "P (xs ! k)" by auto
    have "\<forall>j < k. \<not> P (xs ! j)"
    proof (intro allI impI)
      fix j assume "j < k"
      then have "Suc j < i" using Suc by simp
      with Cons.prems(3) have "\<not> P ((x # xs) ! Suc j)" by blast
      then show "\<not> P (xs ! j)" by simp
    qed
    with Cons.IH k have ih: "findIndex P xs = int k" by blast
    from Cons.prems(3) Suc have "\<not> P x" by force
    with ih Suc show ?thesis by (simp add: Let_def)
  qed
qed

lemma prefixLength_nonneg: "0 \<le> prefixLength m pid promote demote"
  using findIndex_range [of "\<lambda>expr. m pid expr" demote]
        findIndex_range [of "\<lambda>expr. m pid expr" promote]
  by (auto simp: prefixLength_def Let_def)

lemma repeat_underscore: "0 \<le> n \<Longrightarrow> repeat_str ''_'' n = Inr (replicate (nat n) CHR ''_'')"
  by (induction "nat n" arbitrary: n) (auto simp: repeat_str_def)

lemma prefixLength_promoted:
  assumes "\<forall>pat \<in> set demote. \<not> m pid pat"
    and "p < length promote" and "m pid (promote ! p)" and "\<forall>j < p. \<not> m pid (promote ! j)"
  shows "prefixLength m pid promote demote = (int (length promote) - int p) + int (length demote)"
proof -
  have d: "findIndex (\<lambda>expr. m pid expr) demote = - 1"
    using assms(1) by (simp add: findIndex_none)
  have p: "findIndex (\<lambda>expr. m pid expr) promote = int p"
    using assms(2-4) by (rule findIndex_first)
  show ?thesis by (simp add: prefixLength_def Let_def d p)
qed

lemma prefixLength_demoted:
  assumes "d < length demote" and "m pid (demote ! d)" and "\<forall>j < d. \<not> m pid (demote ! j)"
  shows "prefixLength m pid promote demote = int (length demote) - int d - 1"
proof -
  have d: "findIndex (\<lambda>expr. m pid expr) demote = int d"
    using assms by (rule findIndex_first)
  show ?thesis by (simp add: prefixLength_def Let_def d)
qed

lemma prefixLength_neutral:
  assumes "\<forall>pat \<in> set demote. \<not> m pid pat" and "\<forall>pat \<in> set promote. \<not> m pid pat"
  shows "prefixLength m pid promote demote = int (length demote)"
proof -
  have d: "findIndex (\<lambda>expr. m pid expr) demote = - 1"
    using assms(1) by (simp add: findIndex_none)
  have p: "findIndex (\<lambda>expr. m pid expr) promote = - 1"
    using assms(2) by (simp add: findIndex_none)
  show ?thesis by (simp add: prefixLength_def Let_def d p)
qed

lemma prioritizePathname_key:
  "prioritizePathname m pid promote_arg demote_arg =
     Inr (replicate (nat (prefixLength m pid (case promote_arg of None \<Rightarrow> [] | Some p \<Rightarrow> p)
                            (case demote_arg of None \<Rightarrow> [] | Some d \<Rightarrow> d))) CHR ''_'' @ pid)"
  by (simp add: prioritizePathname_def Let_def repeat_underscore prefixLength_nonneg)

text \<open>
  Claim C1, as amended. The prioritization step computes a non-negative bias, the local
  \<^verbatim>\<open>prefixLength\<close>: when no demote pattern matches and the first matching promote pattern
  has index \<open>p\<close>, the bias is \<open>(promoteCount - p) + demoteCount\<close>; when the first
  matching demote pattern has index \<open>d\<close>, the promote list is not consulted and the bias
  is \<open>demoteCount - d - 1\<close>; when no pattern of either list matches, the bias is
  \<open>demoteCount\<close>; and the sort key is the path prefixed by exactly that many
  underscores.
\<close>

theorem prioritizePathname_bias:
  "((\<forall>pat \<in> set demote. \<not> m pid pat) \<and> p < length promote \<and> m pid (promote ! p)
      \<and> (\<forall>j < p. \<not> m pid (promote ! j))
     \<longrightarrow> prefixLength m pid promote demote = (int (length promote) - int p) + int (length demote))
   \<and> (d < length demote \<and> m pid (demote ! d) \<and> (\<forall>j < d. \<not> m pid (demote ! j))
     \<longrightarrow> prefixLength m pid promote demote = int (length demote) - int d - 1)
   \<and> ((\<forall>pat \<in> set demote. \<not> m pid pat) \<and> (\<forall>pat \<in> set promote. \<not> m pid pat)
     \<longrightarrow> prefixLength m pid promote demote = int (length demote))
   \<and> prioritizePathname m pid (Some promote) (Some demote)
       = Inr (replicate (nat (prefixLength m pid promote demote)) CHR ''_'' @ pid)"
  using prefixLength_promoted [of demote m pid p promote]
        prefixLength_demoted [of d demote m pid promote]
        prefixLength_neutral [of demote m pid promote]
        prioritizePathname_key [of m pid "Some promote" "Some demote"]
  by simp

theorem prioritizePathname_bias_witness:
  "prefixLength literal_match ''docs/b'' [''docs/a'', ''docs/b''] [''docs/y'', ''docs/z''] = 3
   \<and> prefixLength literal_match ''docs/z'' [''docs/a'', ''docs/z''] [''docs/y'', ''docs/z''] = 0
   \<and> prefixLength literal_match ''docs/c'' [''docs/a'', ''docs/b''] [''docs/y'', ''docs/z''] = 2
   \<and> prioritizePathname literal_match ''docs/b'' (Some [''docs/a'', ''docs/b'']) (Some [''docs/y'', ''docs/z''])
       = Inr ''___docs/b''"
proof -
  let ?pr = "[''docs/a'', ''docs/b'']" and ?de = "[''docs/y'', ''docs/z'']"
  have 1: "prefixLength literal_match ''docs/b'' ?pr ?de = 3"
    using prioritizePathname_bias [of ?de literal_match "''docs/b''" 1 ?pr 0]
    by (simp add: literal_match_def)
  have 2: "prefixLength literal_match ''docs/z'' [''docs/a'', ''docs/z''] ?de = 0"
    using prioritizePathname_bias [of ?de literal_match "''docs/z''" 0 "[''docs/a'', ''docs/z'']" 1]
    by (simp add: literal_match_def)
  have 3: "prefixLength literal_match ''docs/c'' ?pr ?de = 2"
    using prioritizePathname_bias [of ?de literal_match "''docs/c''" 0 ?pr 0]
    by (simp add: literal_match_def)
  have 4: "prioritizePathname literal_match ''docs/b'' (Some ?pr) (Some ?de)
       = Inr (replicate (nat (prefixLength literal_match ''docs/b'' ?pr ?de)) CHR ''_'' @ ''docs/b'')"
    using prioritizePathname_bias [of ?de literal_match "''docs/b''" 1 ?pr 0] by blast
  from 1 2 3 4 show ?thesis by (simp add: numeral_3_eq_3)
qed

text \<open>
  Claim C1 as the specification states it fails: the specification subtracts one more
  in the promoted case and gives an unmatched path the bias 0. With the single promote
  pattern \<^verbatim>\<open>docs/a\<close> and no demote pattern, the path \<^verbatim>\<open>docs/a\<close> is promoted at index
  0 and its bias is 1, not \<open>(1 - 0 - 1) + 0 = 0\<close>; with the single demote pattern
  \<^verbatim>\<open>docs/a\<close>, the unmatched path \<^verbatim>\<open>docs/b\<close> has bias 1, not 0.
\<close>

theorem prioritizePathname_bias_counterexample:
  "literal_match ''docs/a'' ([''docs/a''] ! 0)
   \<and> prefixLength literal_match ''docs/a'' [''docs/a''] []
       \<noteq> (int (length [''docs/a'']) - 0 - 1) + int (length ([] :: string list))
   \<and> \<not> literal_match ''docs/b'' ''docs/a''
   \<and> prefixLength literal_match ''docs/b'' [] [''docs/a''] \<noteq> 0"
  by (simp add: literal_match_def prefixLength_def)

text \<open>
  Claim C9. For every path and every pair of promote and demote lists (absent lists
  count as empty) the prefix length is a non-negative integer, whichever of the three
  cases applies, so repeating the sentinel never raises and \<^verbatim>\<open>prioritizePathname\<close>
  always returns a key.
\<close>

theorem prefixLength_never_negative:
  "0 \<le> prefixLength m pid (case promote_arg of None \<Rightarrow> [] | Some p \<Rightarrow> p)
                            (case demote_arg of None \<Rightarrow> [] | Some d \<Rightarrow> d)
   \<and> (\<exists>key. prioritizePathname m pid promote_arg demote_arg = Inr key)
   \<and> prioritizePathname m pid promote_arg demote_arg \<noteq> Inl RangeError"
  by (simp add: prefixLength_nonneg prioritizePathname_key)

subsection \<open>Page selection\<close>

text \<open>
  Claim C4. The selection is the list of page paths, in page order, that pass at least
  one include pattern and no exclude pattern, an absent exclude list excluding nothing;
  so a path is selected if and only if it is a page's path, matches some include
  pattern and matches no exclude pattern, and when the include patterns match no page
  the selection is empty.
\<close>

theorem matches_selection:
  "matches m ds pages =
     filter (\<lambda>pn. (\<exists>pat \<in> set (ds_include ds). m pn pat)
                 \<and> (\<forall>pat \<in> set (case ds_exclude ds of None \<Rightarrow> [] | Some excl \<Rightarrow> excl). \<not> m pn pat))
            (map pathname pages)
   \<and> (pn \<in> set (matches m ds pages) \<longleftrightarrow>
        pn \<in> pathname ` set pages \<and> (\<exists>pat \<in> set (ds_include ds). m pn pat)
        \<and> (\<forall>pat \<in> set (case ds_exclude ds of None \<Rightarrow> [] | Some excl \<Rightarrow> excl). \<not> m pn pat))
   \<and> ((\<forall>p \<in> set pages. \<forall>pat \<in> set (ds_include ds). \<not> m (pathname p) pat)
        \<longrightarrow> matches m ds pages = [])"
proof -
  have eq: "matches m ds pages =
     filter (\<lambda>pn. (\<exists>pat \<in> set (ds_include ds). m pn pat)
                 \<and> (\<forall>pat \<in> set (case ds_exclude ds of None \<Rightarrow> [] | Some excl \<Rightarrow> excl). \<not> m pn pat))
            (map pathname pages)"
    by (cases "ds_exclude ds") (simp_all add: matches_def Let_def list_ex_iff)
  show ?thesis
  proof (intro conjI)
    show "matches m ds pages =
     filter (\<lambda>pn. (\<exists>pat \<in> set (ds_include ds). m pn pat)
                 \<and> (\<forall>pat \<in> set (case ds_exclude ds of None \<Rightarrow> [] | Some excl \<Rightarrow> excl). \<not> m pn pat))
            (map pathname pages)" by (rule eq)
  next
    show "pn \<in> set (matches m ds pages) \<longleftrightarrow>
        pn \<in> pathname ` set pages \<and> (\<exists>pat \<in> set (ds_include ds). m pn pat)
        \<and> (\<forall>pat \<in> set (case ds_exclude ds of None \<Rightarrow> [] | Some excl \<Rightarrow> excl). \<not> m pn pat)"
      unfolding eq by auto
  next
    show "(\<forall>p \<in> set pages. \<forall>pat \<in> set (ds_include ds). \<not> m (pathname p) pat)
        \<longrightarrow> matches m ds pages = []"
      unfolding eq by (auto simp: filter_empty_conv)
  qed
qed

theorem matches_selection_witness:
  "matches literal_match sample_set sample_pages = [''docs/a'', ''docs/b'']
   \<and> ''docs/a'' \<in> set (matches literal_match sample_set sample_pages)
   \<and> ''docs/c'' \<notin> set (matches literal_match sample_set sample_pages)
   \<and> ''blog/x'' \<notin> set (matches literal_match sample_set sample_pages)
   \<and> matches literal_match (sample_set \<lparr> ds_include := [''news/x''] \<rparr>) sample_pages = []"
proof -
  have 1: "matches literal_match sample_set sample_pages = [''docs/a'', ''docs/b'']"
    using matches_selection [of literal_match sample_set sample_pages "''docs/a''"]
    by (simp add: sample_set_def sample_pages_def literal_match_def)
  have 2: "''docs/a'' \<in> set (matches literal_match sample_set sample_pages)"
    using matches_selection [of literal_match sample_set sample_pages "''docs/a''"]
    by (simp add: sample_set_def sample_pages_def literal_match_def)
  have 3: "''docs/c'' \<notin> set (matches literal_match sample_set sample_pages)"
    using matches_selection [of literal_match sample_set sample_pages "''docs/c''"]
    by (simp add: sample_set_def sample_pages_def literal_match_def)
  have 4: "''blog/x'' \<notin> set (matches literal_match sample_set sample_pages)"
    using matches_selection [of literal_match sample_set sample_pages "''blog/x''"]
    by (simp add: sample_set_def sample_pages_def literal_match_def)
  have 5: "matches literal_match (sample_set \<lparr> ds_include := [''news/x''] \<rparr>) sample_pages = []"
    using matches_selection
      [of literal_match "sample_set \<lparr> ds_include := [''news/x''] \<rparr>" sample_pages "''docs/a''"]
    by (simp add: sample_set_def sample_pages_def literal_match_def)
  from 1 2 3 4 5 show ?thesis by blast
qed

subsection \<open>Ordering\<close>

text \<open>The model of the collator is a total preorder on strings.\<close>

lemma compare_weights_flip: "compare_weights ys xs = - compare_weights xs ys"
  by (induction xs ys rule: compare_weights.induct) auto


lemma compare_weights_trans:
  "compare_weights xs ys \<le> 0 \<Longrightarrow> compare_weights ys zs \<le> 0 \<Longrightarrow> compare_weights xs zs \<le> 0"
proof (induction xs ys arbitrary: zs rule: compare_weights.induct)
  case 1
  then show ?case by simp
next
  case (2 y ys)
  then show ?case by (cases zs) auto
next
  case (3 x xs)
  then show ?case by simp
next
  case (4 x xs y ys)
  show ?case
  proof (cases zs)
    case Nil
    with 4 show ?thesis by simp
  next
    case (Cons z zs')
    from "4.prems"(1) have xy: "x < y \<or> (x = y \<and> compare_weights xs ys \<le> 0)"
      by (simp split: if_splits)
    from "4.prems"(2) Cons have yz: "y < z \<or> (y = z \<and> compare_weights ys zs' \<le> 0)"
      by (simp split: if_splits)
    show ?thesis
    proof (cases "x < z")
      case True
      with Cons show ?thesis by simp
    next
      case False
      with xy yz have eq: "x = y" "y = z"
        and le: "compare_weights xs ys \<le> 0" "compare_weights ys zs' \<le> 0"
        by auto
      from eq have "\<not> x < y" "\<not> y < x" by simp_all
      with "4.IH" le have "compare_weights xs zs' \<le> 0" by blast
      with eq Cons show ?thesis by simp
    qed
  qed
qed



text \<open>The sort returns, and returns a sorted permutation, when the comparator returns.\<close>

lemma insert_sorted_Inr:
  assumes "\<forall>a b. cmp a b = Inr (c a b)"
  shows "\<exists>zs. insert_sorted cmp x ys = Inr zs \<and> mset zs = add_mset x (mset ys)"
  using assms by (induction ys) auto

lemma insert_sorted_sorted:
  assumes cmp: "\<forall>a b. cmp a b = Inr (c a b)"
    and trans: "\<forall>a b d. c a b \<le> 0 \<longrightarrow> c b d \<le> 0 \<longrightarrow> c a d \<le> 0"
    and total: "\<forall>a b. c a b \<le> 0 \<or> c b a \<le> 0"
  shows "sorted_wrt (\<lambda>a b. c a b \<le> 0) ys \<Longrightarrow> insert_sorted cmp x ys = Inr zs \<Longrightarrow>
         sorted_wrt (\<lambda>a b. c a b \<le> 0) zs"
proof (induction ys arbitrary: zs)
  case Nil
  then show ?case by auto
next
  case (Cons y ys)
  show ?case
  proof (cases "c x y \<le> 0")
    case True
    have cxy: "cmp x y = Inr (c x y)" using cmp by simp
    from Cons.prems(2) True cxy have zs: "zs = x # y # ys" by simp
    have "\<forall>z \<in> set ys. c x z \<le> 0"
      using True Cons.prems(1) trans by auto
    with zs True Cons.prems(1) show ?thesis by simp
  next
    case False
    from insert_sorted_Inr [OF cmp, of x ys] obtain zs' where
      zs': "insert_sorted cmp x ys = Inr zs'" "mset zs' = add_mset x (mset ys)" by blast
    have cxy: "cmp x y = Inr (c x y)" using cmp by simp
    from Cons.prems(2) False cxy zs'(1) have zs: "zs = y # zs'" by simp
    from Cons.prems(1) have "sorted_wrt (\<lambda>a b. c a b \<le> 0) ys" by simp
    with Cons.IH zs'(1) have s: "sorted_wrt (\<lambda>a b. c a b \<le> 0) zs'" by blast
    have "set zs' = insert x (set ys)"
      using zs'(2) by (metis set_mset_add_mset_insert set_mset_mset)
    moreover have "c y x \<le> 0" using False total by blast
    ultimately have "\<forall>z \<in> set zs'. c y z \<le> 0" using Cons.prems(1) by auto
    with s zs show ?thesis by simp
  qed
qed

lemma sort_with_Inr:
  assumes "\<forall>a b. cmp a b = Inr (c a b)"
  shows "\<exists>ys. sort_with cmp xs = Inr ys \<and> mset ys = mset xs"
proof (induction xs)
  case Nil
  show ?case by simp
next
  case (Cons x xs)
  then obtain ys where ys: "sort_with cmp xs = Inr ys" "mset ys = mset xs" by blast
  from insert_sorted_Inr [OF assms, of x ys] obtain zs where
    "insert_sorted cmp x ys = Inr zs" "mset zs = add_mset x (mset ys)" by blast
  with ys show ?case by simp
qed

lemma sort_with_sorted:
  assumes cmp: "\<forall>a b. cmp a b = Inr (c a b)"
    and trans: "\<forall>a b d. c a b \<le> 0 \<longrightarrow> c b d \<le> 0 \<longrightarrow> c a d \<le> 0"
    and total: "\<forall>a b. c a b \<le> 0 \<or> c b a \<le> 0"
  shows "sort_with cmp xs = Inr ys \<Longrightarrow> sorted_wrt (\<lambda>a b. c a b \<le> 0) ys"
proof (induction xs arbitrary: ys)
  case Nil
  then show ?case by simp
next
  case (Cons x xs)
  from sort_with_Inr [OF cmp, of xs] obtain ys' where
    ys': "sort_with cmp xs = Inr ys'" by blast
  with Cons.IH have s: "sorted_wrt (\<lambda>a b. c a b \<le> 0) ys'" by blast
  from Cons.prems ys' have "insert_sorted cmp x ys' = Inr ys" by simp
  with insert_sorted_sorted [OF cmp trans total s] show ?case by blast
qed

text \<open>The comparator of \<^verbatim>\<open>processDocSet\<close> always returns; it compares the sort keys.\<close>

lemma prioritizePathname_sort_key:
  "prioritizePathname m pn (ds_promote ds) (ds_demote ds) = Inr (sort_key m ds pn)"
  by (simp add: prioritizePathname_key sort_key_def bias_def promote_of_def demote_of_def)

lemma compare_paths_Inr:
  "compare_paths m w ds a b = Inr (collator_compare w (sort_key m ds a) (sort_key m ds b))"
  by (simp add: compare_paths_def prioritizePathname_sort_key)

lemma key_order_trans:
  "collator_compare w x y \<le> 0 \<Longrightarrow> collator_compare w y z \<le> 0 \<Longrightarrow> collator_compare w x z \<le> 0"
  unfolding collator_compare_def by (rule compare_weights_trans)

lemma key_order_total: "collator_compare w x y \<le> 0 \<or> collator_compare w y x \<le> 0"
  unfolding collator_compare_def using compare_weights_flip [of "map w x" "map w y"] by linarith

lemma sorted_paths_Inr:
  "\<exists>out. sorted_paths m w ds pages = Inr out \<and> mset out = mset (matches m ds pages)
     \<and> sorted_wrt (\<lambda>a b. collator_compare w (sort_key m ds a) (sort_key m ds b) \<le> 0) out"
proof -
  let ?c = "\<lambda>a b. collator_compare w (sort_key m ds a) (sort_key m ds b)"
  have cmp: "\<forall>a b. compare_paths m w ds a b = Inr (?c a b)"
    by (simp add: compare_paths_Inr)
  have trans: "\<forall>a b d. ?c a b \<le> 0 \<longrightarrow> ?c b d \<le> 0 \<longrightarrow> ?c a d \<le> 0"
    using key_order_trans by blast
  have total: "\<forall>a b. ?c a b \<le> 0 \<or> ?c b a \<le> 0"
    using key_order_total by blast
  from sort_with_Inr [OF cmp, of "matches m ds pages"] obtain out where
    out: "sort_with (compare_paths m w ds) (matches m ds pages) = Inr out"
         "mset out = mset (matches m ds pages)" by blast
  from sort_with_sorted [OF cmp trans total out(1)] out show ?thesis
    by (simp add: sorted_paths_def)
qed





















subsection \<open>Title and content of a page\<close>

lemma is_h1_simps [simp]:
  "is_h1 (DElement t a cs) = (t = ''h1'')" "is_h1 (DText s) = False" "is_h1 (DComment s) = False"
  by (simp_all add: is_h1_def)

lemma no_h1_found:
  "query_first is_h1 ns = None \<Longrightarrow>
     (\<forall>a. Open ''h1'' a \<notin> set (tokens ns)) \<and> remove_first is_h1 ns = ns"
proof (induction is_h1 ns rule: query_first.induct)
  case 1
  show ?case by simp
next
  case (2 t a cs ns)
  from "2.prems" have t: "t \<noteq> ''h1''" and cs: "query_first is_h1 cs = None"
    and ns: "query_first is_h1 ns = None"
    by (auto split: if_splits option.splits)
  from "2.hyps"(1) t cs have 1: "(\<forall>a. Open ''h1'' a \<notin> set (tokens cs)) \<and> remove_first is_h1 cs = cs"
    by simp
  from "2.hyps"(2) t cs ns have 2: "(\<forall>a. Open ''h1'' a \<notin> set (tokens ns)) \<and> remove_first is_h1 ns = ns"
    by simp
  from 1 2 t cs show ?case by simp
next
  case (3 v ns)
  then show ?case by simp
next
  case (4 v ns)
  then show ?case by simp
qed

lemma first_h1_cut:
  "query_first is_h1 ns = Some h \<Longrightarrow>
     is_h1 h \<and> (\<exists>pre post. tokens ns = pre @ tokens [h] @ post
                  \<and> (\<forall>a. Open ''h1'' a \<notin> set pre)
                  \<and> tokens (remove_first is_h1 ns) = pre @ post)"
proof (induction is_h1 ns rule: query_first.induct)
  case 1
  then show ?case by simp
next
  case (2 t a cs ns)
  show ?case
  proof (cases "t = ''h1''")
    case True
    with "2.prems" have h: "h = DElement t a cs" by simp
    have "tokens (DElement t a cs # ns) = [] @ tokens [h] @ tokens ns" using h by simp
    moreover have "tokens (remove_first is_h1 (DElement t a cs # ns)) = [] @ tokens ns"
      using True by simp
    ultimately show ?thesis using h True by fastforce
  next
    case False
    show ?thesis
    proof (cases "query_first is_h1 cs")
      case (Some m)
      with False "2.prems" have mh: "m = h" by simp
      from "2.hyps"(1) False Some mh obtain pre post where
        c: "is_h1 h" "tokens cs = pre @ tokens [h] @ post" "\<forall>a. Open ''h1'' a \<notin> set pre"
           "tokens (remove_first is_h1 cs) = pre @ post"
        by auto
      have 1: "tokens (DElement t a cs # ns) = (Open t a # pre) @ tokens [h] @ (post @ Close t # tokens ns)"
        using c(2) by simp
      have 2: "\<forall>a'. Open ''h1'' a' \<notin> set (Open t a # pre)" using c(3) False by simp
      have 3: "tokens (remove_first is_h1 (DElement t a cs # ns))
                 = (Open t a # pre) @ (post @ Close t # tokens ns)"
        using False Some c(4) by simp
      from c(1) 1 2 3 show ?thesis by blast
    next
      case None
      with False "2.prems" have ns: "query_first is_h1 ns = Some h" by simp
      from "2.hyps"(2) False None ns obtain pre post where
        c: "is_h1 h" "tokens ns = pre @ tokens [h] @ post" "\<forall>a. Open ''h1'' a \<notin> set pre"
           "tokens (remove_first is_h1 ns) = pre @ post"
        by auto
      from no_h1_found [OF None] have n: "\<forall>a. Open ''h1'' a \<notin> set (tokens cs)" by simp
      have 1: "tokens (DElement t a cs # ns)
                 = (Open t a # tokens cs @ Close t # pre) @ tokens [h] @ post"
        using c(2) by simp
      have 2: "\<forall>a'. Open ''h1'' a' \<notin> set (Open t a # tokens cs @ Close t # pre)"
        using c(3) n False by simp
      have 3: "tokens (remove_first is_h1 (DElement t a cs # ns))
                 = (Open t a # tokens cs @ Close t # pre) @ post"
        using False None c(4) by simp
      from c(1) 1 2 3 show ?thesis by blast
    qed
  qed
next
  case (3 v ns)
  then obtain pre post where
    c: "is_h1 h" "tokens ns = pre @ tokens [h] @ post" "\<forall>a. Open ''h1'' a \<notin> set pre"
       "tokens (remove_first is_h1 ns) = pre @ post"
    by auto
  have 1: "tokens (DText v # ns) = (Chars v # pre) @ tokens [h] @ post" using c(2) by simp
  have 2: "\<forall>a. Open ''h1'' a \<notin> set (Chars v # pre)" using c(3) by simp
  have 3: "tokens (remove_first is_h1 (DText v # ns)) = (Chars v # pre) @ post" using c(4) by simp
  from c(1) 1 2 3 show ?case by blast
next
  case (4 v ns)
  then obtain pre post where
    c: "is_h1 h" "tokens ns = pre @ tokens [h] @ post" "\<forall>a. Open ''h1'' a \<notin> set pre"
       "tokens (remove_first is_h1 ns) = pre @ post"
    by auto
  have 1: "tokens (DComment v # ns) = (Remark v # pre) @ tokens [h] @ post" using c(2) by simp
  have 2: "\<forall>a. Open ''h1'' a \<notin> set (Remark v # pre)" using c(3) by simp
  have 3: "tokens (remove_first is_h1 (DComment v # ns)) = (Remark v # pre) @ post" using c(4) by simp
  from c(1) 1 2 3 show ?case by blast
qed

text \<open>\<^verbatim>\<open>trim\<close> leaves nothing of a string of white space.\<close>

lemma ws_len_one: "ws1 c \<Longrightarrow> ws_len (c # s) = 1"
  by (cases s rule: ws_len.cases) simp_all

lemma ws_len_two: "\<not> ws1 c1 \<Longrightarrow> ws2 c1 c2 \<Longrightarrow> ws_len (c1 # c2 # s) = 2"
  by (cases s) simp_all

lemma ws_len_three:
  "\<not> ws1 c1 \<Longrightarrow> \<not> ws2 c1 c2 \<Longrightarrow> ws3 c1 c2 c3 \<Longrightarrow> ws_len (c1 # c2 # c3 # s) = 3"
  by simp

lemma white_space_units_shape:
  "list_all (\<lambda>u. case u of
                    [c] \<Rightarrow> ws1 c
                  | [c1, c2] \<Rightarrow> \<not> ws1 c1 \<and> ws2 c1 c2
                  | [c1, c2, c3] \<Rightarrow> \<not> ws1 c1 \<and> \<not> ws2 c1 c2 \<and> ws3 c1 c2 c3
                  | _ \<Rightarrow> False) white_space_units"
  by (simp add: white_space_units_def ws1_def ws2_def ws3_def)

lemma ws_len_unit:
  assumes "u \<in> set white_space_units"
  shows "ws_len (u @ s) = length u \<and> u \<noteq> []"
proof -
  from assms white_space_units_shape
  have "case u of
          [c] \<Rightarrow> ws1 c
        | [c1, c2] \<Rightarrow> \<not> ws1 c1 \<and> ws2 c1 c2
        | [c1, c2, c3] \<Rightarrow> \<not> ws1 c1 \<and> \<not> ws2 c1 c2 \<and> ws3 c1 c2 c3
        | _ \<Rightarrow> False"
    unfolding list_all_iff by blast
  then show ?thesis
    by (auto simp: ws_len_one ws_len_two ws_len_three split: list.splits)
qed

lemma strip_units_front:
  assumes "u \<in> set white_space_units"
  shows "strip_units ws_len (u @ s) = strip_units ws_len s"
proof -
  from ws_len_unit [OF assms, of s] have l: "ws_len (u @ s) = length u" and n: "u \<noteq> []"
    by simp_all
  from n have "length u \<noteq> 0" by simp
  with l n have "strip_units ws_len (u @ s) = strip_units ws_len (drop (ws_len (u @ s)) (u @ s))"
    by (subst strip_units.simps) simp
  with l show ?thesis by simp
qed

lemma strip_units_white_space:
  "set us \<subseteq> set white_space_units \<Longrightarrow> strip_units ws_len (concat us) = []"
proof (induction us)
  case Nil
  show ?case by (simp add: strip_units.simps)
next
  case (Cons u us)
  then have "u \<in> set white_space_units" "set us \<subseteq> set white_space_units" by simp_all
  with Cons.IH show ?case by (simp add: strip_units_front)
qed

lemma trim_white_space:
  assumes "set us \<subseteq> set white_space_units"
  shows "trim (concat us) = []"
proof -
  have "strip_units ws_len_rev [] = []" by (simp add: strip_units.simps)
  with strip_units_white_space [OF assms] show ?thesis by (simp add: trim_def)
qed

text \<open>What \<^verbatim>\<open>buildEntryFromHtml\<close> returns once the main root is found.\<close>

lemma join_with_first: "ys \<noteq> [] \<Longrightarrow> join_with sep (x # ys) = x @ sep @ join_with sep ys"
  by (cases ys) simp_all

lemma buildEntryFromHtml_found:
  assumes "readFile h htmlPath = Some html"
    and "query_first (selects h (case sel_arg of None \<Rightarrow> ''main'' | Some s \<Rightarrow> s)) (parseHtml h html)
           = Some main"
  shows "buildEntryFromHtml h htmlPath sel_arg ign_arg only =
     (case entryToSimpleMarkdown h (content_of main)
             (''h1'' # ''footer'' # ''header'' # (case ign_arg of None \<Rightarrow> [] | Some l \<Rightarrow> l)) only of
        None \<Rightarrow> Inl MarkdownFailure
      | Some markdown \<Rightarrow>
          Inr (join_with newline2
                 ([''# '' @ title_of main]
                  @ (case metaDesc_of h
                            (replace_first (selects h (case sel_arg of None \<Rightarrow> ''main'' | Some s \<Rightarrow> s))
                               (with_children main (content_of main)) (parseHtml h html)) of
                       None \<Rightarrow> []
                     | Some d \<Rightarrow> if d = [] then [] else [''> '' @ d])
                  @ [trim markdown])))"
  using assms by (simp add: buildEntryFromHtml_def Let_def)

lemma entry_shape:
  "\<exists>desc. join_with newline2 ([''# '' @ t] @ (case m of None \<Rightarrow> [] | Some d \<Rightarrow> if d = [] then [] else [''> '' @ d]) @ [b])
            = ''# '' @ t @ newline2 @ desc @ b
          \<and> (desc = [] \<or> (\<exists>d. d \<noteq> [] \<and> desc = ''> '' @ d @ newline2))"
proof (cases m)
  case None
  then show ?thesis by simp
next
  case (Some d)
  show ?thesis
  proof (cases "d = []")
    case True
    with Some show ?thesis by simp
  next
    case False
    with Some have "join_with newline2 ([''# '' @ t] @ (case m of None \<Rightarrow> [] | Some d \<Rightarrow> if d = [] then [] else [''> '' @ d]) @ [b])
            = ''# '' @ t @ newline2 @ (''> '' @ d @ newline2) @ b"
      by simp
    with False show ?thesis by blast
  qed
qed

lemma buildEntryFromHtml_body:
  assumes "readFile h htmlPath = Some html"
    and "query_first (selects h (case sel_arg of None \<Rightarrow> ''main'' | Some s \<Rightarrow> s)) (parseHtml h html)
           = Some main"
    and "entryToSimpleMarkdown h (content_of main)
           (''h1'' # ''footer'' # ''header'' # (case ign_arg of None \<Rightarrow> [] | Some l \<Rightarrow> l)) only
         = Some markdown"
  shows "\<exists>desc. buildEntryFromHtml h htmlPath sel_arg ign_arg only
                  = Inr (''# '' @ title_of main @ newline2 @ desc @ trim markdown)
               \<and> (desc = [] \<or> (\<exists>d. d \<noteq> [] \<and> desc = ''> '' @ d @ newline2))"
proof -
  let ?m = "metaDesc_of h
              (replace_first (selects h (case sel_arg of None \<Rightarrow> ''main'' | Some s \<Rightarrow> s))
                 (with_children main (content_of main)) (parseHtml h html))"
  from buildEntryFromHtml_found [OF assms(1,2), of ign_arg only] assms(3)
  have "buildEntryFromHtml h htmlPath sel_arg ign_arg only =
      Inr (join_with newline2
             ([''# '' @ title_of main]
              @ (case ?m of None \<Rightarrow> [] | Some d \<Rightarrow> if d = [] then [] else [''> '' @ d])
              @ [trim markdown]))"
    by simp
  with entry_shape [of "title_of main" ?m "trim markdown"] show ?thesis by auto
qed

lemma buildEntryFromHtml_failure:
  assumes "readFile h htmlPath = Some html"
    and "query_first (selects h (case sel_arg of None \<Rightarrow> ''main'' | Some s \<Rightarrow> s)) (parseHtml h html)
           = Some main"
    and "entryToSimpleMarkdown h (content_of main)
           (''h1'' # ''footer'' # ''header'' # (case ign_arg of None \<Rightarrow> [] | Some l \<Rightarrow> l)) only
         = None"
  shows "buildEntryFromHtml h htmlPath sel_arg ign_arg only = Inl MarkdownFailure"
  using buildEntryFromHtml_found [OF assms(1,2), of ign_arg only] assms(3) by simp

text \<open>
  Claim C8. When the main root is found: if it has a first heading-level-1 element in
  tree order, the title is that element's text content, trimmed, and the content is the
  main root's content with exactly that element's serialisation cut out (no other
  heading-level-1 element stands before it); if it has none, the title is
  \<^verbatim>\<open>Untitled\<close> and the content is unchanged. \<^verbatim>\<open>buildEntryFromHtml\<close> hands exactly
  this content to the converter and returns the title line, the description line if
  there is one, and the converter's trimmed output, so the entry is the title line
  followed by the flattened content without the heading.
\<close>

theorem title_from_first_h1:
  "(query_first is_h1 (children_of main) = Some h1 \<longrightarrow>
      is_h1 h1 \<and> title_of main = trim (textContent h1)
      \<and> (\<exists>pre post. tokens (children_of main) = pre @ tokens [h1] @ post
             \<and> (\<forall>a. Open ''h1'' a \<notin> set pre)
             \<and> tokens (content_of main) = pre @ post))
   \<and> (query_first is_h1 (children_of main) = None \<longrightarrow>
      (\<forall>a. Open ''h1'' a \<notin> set (tokens (children_of main)))
      \<and> title_of main = ''Untitled'' \<and> content_of main = children_of main)
   \<and> (readFile h htmlPath = Some html
      \<and> query_first (selects h (case sel_arg of None \<Rightarrow> ''main'' | Some s \<Rightarrow> s)) (parseHtml h html)
          = Some main
      \<longrightarrow> buildEntryFromHtml h htmlPath sel_arg ign_arg only =
            (case entryToSimpleMarkdown h (content_of main)
                    (''h1'' # ''footer'' # ''header'' # (case ign_arg of None \<Rightarrow> [] | Some l \<Rightarrow> l))
                    only of
               None \<Rightarrow> Inl MarkdownFailure
             | Some markdown \<Rightarrow>
                 Inr (join_with newline2
                        ([''# '' @ title_of main]
                         @ (case metaDesc_of h
                                   (replace_first
                                      (selects h (case sel_arg of None \<Rightarrow> ''main'' | Some s \<Rightarrow> s))
                                      (with_children main (content_of main)) (parseHtml h html)) of
                              None \<Rightarrow> []
                            | Some d \<Rightarrow> if d = [] then [] else [''> '' @ d])
                         @ [trim markdown]))))
   \<and> (readFile h htmlPath = Some html
      \<and> query_first (selects h (case sel_arg of None \<Rightarrow> ''main'' | Some s \<Rightarrow> s)) (parseHtml h html)
          = Some main
      \<and> entryToSimpleMarkdown h (content_of main)
           (''h1'' # ''footer'' # ''header'' # (case ign_arg of None \<Rightarrow> [] | Some l \<Rightarrow> l)) only
          = Some markdown
      \<longrightarrow> (\<exists>desc. buildEntryFromHtml h htmlPath sel_arg ign_arg only
                      = Inr (''# '' @ title_of main @ newline2 @ desc @ trim markdown)
                   \<and> (desc = [] \<or> (\<exists>d. d \<noteq> [] \<and> desc = ''> '' @ d @ newline2))))"
proof (intro conjI)
  show "query_first is_h1 (children_of main) = Some h1 \<longrightarrow>
      is_h1 h1 \<and> title_of main = trim (textContent h1)
      \<and> (\<exists>pre post. tokens (children_of main) = pre @ tokens [h1] @ post
             \<and> (\<forall>a. Open ''h1'' a \<notin> set pre)
             \<and> tokens (content_of main) = pre @ post)"
  proof
    assume q: "query_first is_h1 (children_of main) = Some h1"
    from first_h1_cut [OF q] q show "is_h1 h1 \<and> title_of main = trim (textContent h1)
      \<and> (\<exists>pre post. tokens (children_of main) = pre @ tokens [h1] @ post
             \<and> (\<forall>a. Open ''h1'' a \<notin> set pre)
             \<and> tokens (content_of main) = pre @ post)"
      by (simp add: title_of_def content_of_def)
  qed
next
  show "query_first is_h1 (children_of main) = None \<longrightarrow>
      (\<forall>a. Open ''h1'' a \<notin> set (tokens (children_of main)))
      \<and> title_of main = ''Untitled'' \<and> content_of main = children_of main"
  proof
    assume q: "query_first is_h1 (children_of main) = None"
    from no_h1_found [OF q] q show "(\<forall>a. Open ''h1'' a \<notin> set (tokens (children_of main)))
      \<and> title_of main = ''Untitled'' \<and> content_of main = children_of main"
      by (simp add: title_of_def content_of_def)
  qed
next
  show "readFile h htmlPath = Some html
      \<and> query_first (selects h (case sel_arg of None \<Rightarrow> ''main'' | Some s \<Rightarrow> s)) (parseHtml h html)
          = Some main
      \<longrightarrow> buildEntryFromHtml h htmlPath sel_arg ign_arg only =
            (case entryToSimpleMarkdown h (content_of main)
                    (''h1'' # ''footer'' # ''header'' # (case ign_arg of None \<Rightarrow> [] | Some l \<Rightarrow> l))
                    only of
               None \<Rightarrow> Inl MarkdownFailure
             | Some markdown \<Rightarrow>
                 Inr (join_with newline2
                        ([''# '' @ title_of main]
                         @ (case metaDesc_of h
                                   (replace_first
                                      (selects h (case sel_arg of None \<Rightarrow> ''main'' | Some s \<Rightarrow> s))
                                      (with_children main (content_of main)) (parseHtml h html)) of
                              None \<Rightarrow> []
                            | Some d \<Rightarrow> if d = [] then [] else [''> '' @ d])
                         @ [trim markdown])))"
    using buildEntryFromHtml_found [of h htmlPath html sel_arg main ign_arg only] by blast
next
  show "readFile h htmlPath = Some html
      \<and> query_first (selects h (case sel_arg of None \<Rightarrow> ''main'' | Some s \<Rightarrow> s)) (parseHtml h html)
          = Some main
      \<and> entryToSimpleMarkdown h (content_of main)
           (''h1'' # ''footer'' # ''header'' # (case ign_arg of None \<Rightarrow> [] | Some l \<Rightarrow> l)) only
          = Some markdown
      \<longrightarrow> (\<exists>desc. buildEntryFromHtml h htmlPath sel_arg ign_arg only
                      = Inr (''# '' @ title_of main @ newline2 @ desc @ trim markdown)
                   \<and> (desc = [] \<or> (\<exists>d. d \<noteq> [] \<and> desc = ''> '' @ d @ newline2)))"
    using buildEntryFromHtml_body [of h htmlPath html sel_arg main ign_arg only markdown] by blast
qed

lemma sample_first_h1:
  "query_first is_h1 (children_of sample_main)
     = Some (DElement ''h1'' [] [DText '' Page '', DElement ''em'' [] [DText ''A''], DText '' ''])"
  by (simp add: sample_main_def)

lemma sample_h1_text:
  "trim (textContent (DElement ''h1'' [] [DText '' Page '', DElement ''em'' [] [DText ''A''], DText '' '']))
     = ''Page A''"
  by code_simp

lemma plain_no_h1: "query_first is_h1 (children_of plain_main) = None"
  by (simp add: plain_main_def)

lemma sample_file: "readFile sample_host ''dist/docs/a/index.html'' = Some ''dist/docs/a/index.html''"
  by (simp add: sample_host_def)

lemma sample_main_found:
  "query_first (selects sample_host ''main'') (parseHtml sample_host ''dist/docs/a/index.html'')
     = Some sample_main"
  by (simp add: sample_host_def tag_selects_def sample_main_def)

lemma sample_markdown:
  "entryToSimpleMarkdown sample_host nodes ign only = Some (concat (map text_data nodes))"
  by (simp add: sample_host_def)

lemma sample_body:
  "trim (concat (map text_data (content_of sample_main))) = ''introbodysecond''"
  by code_simp

text \<open>
  The sample page: its first heading reads \<^verbatim>\<open>Page A\<close> after trimming and is cut out of
  the content, and the entry is the title line and the text of the rest.
\<close>

theorem title_from_first_h1_witness:
  "title_of sample_main = ''Page A''
   \<and> (\<exists>pre post. tokens (children_of sample_main)
          = pre @ tokens [DElement ''h1'' [] [DText '' Page '', DElement ''em'' [] [DText ''A''], DText '' '']] @ post
        \<and> (\<forall>a. Open ''h1'' a \<notin> set pre)
        \<and> tokens (content_of sample_main) = pre @ post)
   \<and> title_of plain_main = ''Untitled'' \<and> content_of plain_main = children_of plain_main
   \<and> (\<exists>desc. buildEntryFromHtml sample_host ''dist/docs/a/index.html'' None None False
          = Inr (''# '' @ ''Page A'' @ newline2 @ desc @ ''introbodysecond'')
        \<and> (desc = [] \<or> (\<exists>d. d \<noteq> [] \<and> desc = ''> '' @ d @ newline2)))"
proof -
  let ?h = "DElement ''h1'' [] [DText '' Page '', DElement ''em'' [] [DText ''A''], DText '' '']"
  let ?md = "concat (map text_data (content_of sample_main))"
  note t = title_from_first_h1
    [of sample_main ?h sample_host "''dist/docs/a/index.html''" "''dist/docs/a/index.html''" None
        None False ?md]
  from t sample_first_h1
  have 1: "title_of sample_main = trim (textContent ?h)
      \<and> (\<exists>pre post. tokens (children_of sample_main) = pre @ tokens [?h] @ post
             \<and> (\<forall>a. Open ''h1'' a \<notin> set pre)
             \<and> tokens (content_of sample_main) = pre @ post)"
    by blast
  from title_from_first_h1 [of plain_main] plain_no_h1
  have 2: "title_of plain_main = ''Untitled'' \<and> content_of plain_main = children_of plain_main"
    by blast
  have m: "entryToSimpleMarkdown sample_host (content_of sample_main)
             (''h1'' # ''footer'' # ''header'' # (case None of None \<Rightarrow> [] | Some l \<Rightarrow> l)) False
           = Some ?md"
    by (rule sample_markdown)
  have q: "query_first (selects sample_host (case None of None \<Rightarrow> ''main'' | Some s \<Rightarrow> s))
             (parseHtml sample_host ''dist/docs/a/index.html'') = Some sample_main"
    using sample_main_found by simp
  from t sample_file q m
  have 3: "\<exists>desc. buildEntryFromHtml sample_host ''dist/docs/a/index.html'' None None False
          = Inr (''# '' @ title_of sample_main @ newline2 @ desc @ trim ?md)
        \<and> (desc = [] \<or> (\<exists>d. d \<noteq> [] \<and> desc = ''> '' @ d @ newline2))"
    by blast
  from 1 have 4: "title_of sample_main = ''Page A''" by (simp add: sample_h1_text)
  from 1 2 3 show ?thesis unfolding 4 sample_h1_text sample_body by blast
qed

text \<open>
  Claim C10. A heading-level-1 element in the main root whose text content is empty or
  consists of white space only (any sequence of the white space and line terminator
  code points that \<^verbatim>\<open>trim\<close> removes) gives the empty title, not \<^verbatim>\<open>Untitled\<close>; the
  title is the fallback \<^verbatim>\<open>Untitled\<close> when there is no such element, and with a heading
  present it reads \<^verbatim>\<open>Untitled\<close> only if that is the heading's own trimmed text.
\<close>

theorem blank_h1_gives_empty_title:
  "(query_first is_h1 (children_of main) = Some h1
      \<and> textContent h1 = concat us \<and> set us \<subseteq> set white_space_units
      \<longrightarrow> title_of main = [] \<and> title_of main \<noteq> ''Untitled'')
   \<and> (title_of main = ''Untitled'' \<and> query_first is_h1 (children_of main) = Some h1
      \<longrightarrow> trim (textContent h1) = ''Untitled'')
   \<and> (query_first is_h1 (children_of main) = None \<longrightarrow> title_of main = ''Untitled'')"
  by (auto simp: title_of_def trim_white_space)

lemma blank_first_h1:
  "query_first is_h1 (children_of blank_main)
     = Some (DElement ''h1'' [] [DText ''  '', DComment ''draft'', DText [CHR 0xC2, CHR 0xA0, CHR 0x0A]])"
  by (simp add: blank_main_def)

lemma blank_text:
  "textContent (DElement ''h1'' [] [DText ''  '', DComment ''draft'', DText [CHR 0xC2, CHR 0xA0, CHR 0x0A]])
     = concat [[CHR 0x20], [CHR 0x20], [CHR 0xC2, CHR 0xA0], [CHR 0x0A]]
   \<and> set [[CHR 0x20], [CHR 0x20], [CHR 0xC2, CHR 0xA0], [CHR 0x0A]] \<subseteq> set white_space_units"
  by (simp add: textContent_def white_space_units_def)

theorem blank_h1_gives_empty_title_witness:
  "title_of blank_main = [] \<and> title_of blank_main \<noteq> ''Untitled''
   \<and> title_of plain_main = ''Untitled''"
proof -
  let ?h = "DElement ''h1'' [] [DText ''  '', DComment ''draft'', DText [CHR 0xC2, CHR 0xA0, CHR 0x0A]]"
  from blank_h1_gives_empty_title
    [of blank_main ?h "[[CHR 0x20], [CHR 0x20], [CHR 0xC2, CHR 0xA0], [CHR 0x0A]]"]
    blank_first_h1 blank_text
  have 1: "title_of blank_main = [] \<and> title_of blank_main \<noteq> ''Untitled''" by blast
  from blank_h1_gives_empty_title [of plain_main] plain_no_h1
  have 2: "title_of plain_main = ''Untitled''" by blast
  from 1 2 show ?thesis by blast
qed

subsection \<open>Pages that fail\<close>

lemma process_pages_state:
  "process_pages h ds distDir pns (es, con) =
     (es @ map projr (filter (\<lambda>r. \<not> isl r) (map (page_entry h ds distDir) pns)),
      con @ map (\<lambda>pn. ConsoleError (not_found_prefix @ htmlPath_of h distDir pn))
                (filter (\<lambda>pn. isl (page_entry h ds distDir pn)) pns))"
proof (induction pns arbitrary: es con)
  case Nil
  show ?case by simp
next
  case (Cons pn pns)
  show ?case
  proof (cases "page_entry h ds distDir pn")
    case (Inl e)
    then have "process_pages h ds distDir (pn # pns) (es, con) =
        process_pages h ds distDir pns
          (es, con @ [ConsoleError (not_found_prefix @ htmlPath_of h distDir pn)])"
      by (simp add: page_entry_def Let_def)
    with Cons.IH Inl show ?thesis by simp
  next
    case (Inr entry)
    then have "process_pages h ds distDir (pn # pns) (es, con) =
        process_pages h ds distDir pns (es @ [entry], con)"
      by (simp add: page_entry_def Let_def)
    with Cons.IH Inr show ?thesis by simp
  qed
qed

lemma filter_length_mset:
  "mset xs = mset ys \<Longrightarrow> length (filter P xs) = length (filter P ys)"
  by (metis mset_filter size_mset)

lemma entries_and_failures:
  "length (filter (\<lambda>r. \<not> isl r) (map f xs)) + length (filter (\<lambda>x. isl (f x)) xs) = length xs"
  by (induction xs) auto

lemma page_entry_no_file:
  "readFile h (htmlPath_of h distDir pn) = None \<Longrightarrow> isl (page_entry h ds distDir pn)"
  by (simp add: page_entry_def buildEntryFromHtml_def)

lemma page_entry_no_main:
  "readFile h (htmlPath_of h distDir pn) = Some html \<Longrightarrow>
   query_first (selects h (case ds_mainSelector ds of None \<Rightarrow> ''main'' | Some s \<Rightarrow> s))
     (parseHtml h html) = None \<Longrightarrow>
   isl (page_entry h ds distDir pn)"
  by (simp add: page_entry_def buildEntryFromHtml_def)

text \<open>
  Claim C5. \<^verbatim>\<open>processDocSet\<close> always returns its artifact: the sort cannot raise, and a
  page whose entry cannot be built is skipped. The entries are the entries of the pages
  that were built, in sorted order, one each; the console has one error line per failed
  page, naming the HTML path built from the page's path, before the closing line; the
  number of entries is the number of selected pages minus the number of failed ones; and
  a page fails when its HTML file cannot be read or its document has no element for the
  main selector.
\<close>

theorem failed_pages_are_skipped:
  "\<exists>sorted_pns art.
     sorted_paths (isMatch h) (weight h) ds pages = Inr sorted_pns
     \<and> mset sorted_pns = mset (matches (isMatch h) ds pages)
     \<and> processDocSet h distDir sep pages ds = Inr art
     \<and> outPath art = path_join h [distDir, strip_leading_slash (ds_url ds)]
     \<and> entries art = map projr (filter (\<lambda>r. \<not> isl r) (map (page_entry h ds distDir) sorted_pns))
     \<and> console art =
         map (\<lambda>pn. ConsoleError (not_found_prefix @ htmlPath_of h distDir pn))
             (filter (\<lambda>pn. isl (page_entry h ds distDir pn)) sorted_pns)
         @ [ConsoleLog (generated_message (ds_title ds) (outPath art))]
     \<and> length (entries art)
         + length (filter (\<lambda>pn. isl (page_entry h ds distDir pn)) (matches (isMatch h) ds pages))
         = length (matches (isMatch h) ds pages)
     \<and> content art = ''<SYSTEM>'' @ ds_description ds @ ''</SYSTEM>'' @ newline2
                       @ join_with sep (entries art)
     \<and> (\<forall>pn. readFile h (htmlPath_of h distDir pn) = None \<longrightarrow> isl (page_entry h ds distDir pn))
     \<and> (\<forall>pn html. readFile h (htmlPath_of h distDir pn) = Some html
           \<and> query_first (selects h (case ds_mainSelector ds of None \<Rightarrow> ''main'' | Some s \<Rightarrow> s))
                (parseHtml h html) = None
          \<longrightarrow> isl (page_entry h ds distDir pn))"
proof -
  let ?m = "matches (isMatch h) ds pages"
  let ?fail = "\<lambda>pn. isl (page_entry h ds distDir pn)"
  from sorted_paths_Inr [of "isMatch h" "weight h" ds pages] obtain sorted_pns where
    s: "sorted_paths (isMatch h) (weight h) ds pages = Inr sorted_pns"
       "mset sorted_pns = mset ?m"
    by blast
  let ?es = "map projr (filter (\<lambda>r. \<not> isl r) (map (page_entry h ds distDir) sorted_pns))"
  let ?con = "map (\<lambda>pn. ConsoleError (not_found_prefix @ htmlPath_of h distDir pn))
                (filter ?fail sorted_pns)"
  let ?out = "path_join h [distDir, strip_leading_slash (ds_url ds)]"
  let ?art = "\<lparr> outPath = ?out,
                content = ''<SYSTEM>'' @ ds_description ds @ ''</SYSTEM>'' @ newline2
                          @ join_with sep ?es,
                entries = ?es,
                console = ?con @ [ConsoleLog (generated_message (ds_title ds) ?out)] \<rparr>"
  have p: "processDocSet h distDir sep pages ds = Inr ?art"
    by (simp add: processDocSet_def s(1) process_pages_state Let_def)
  have "length ?es + length (filter ?fail sorted_pns) = length sorted_pns"
    using entries_and_failures [of "page_entry h ds distDir" sorted_pns] by simp
  moreover have "length (filter ?fail sorted_pns) = length (filter ?fail ?m)"
    using s(2) by (rule filter_length_mset)
  moreover have "length sorted_pns = length ?m"
    using s(2) by (metis size_mset)
  ultimately have n: "length ?es + length (filter ?fail ?m) = length ?m" by simp
  have f1: "\<forall>pn. readFile h (htmlPath_of h distDir pn) = None \<longrightarrow> isl (page_entry h ds distDir pn)"
    using page_entry_no_file by blast
  have f2: "\<forall>pn html. readFile h (htmlPath_of h distDir pn) = Some html
           \<and> query_first (selects h (case ds_mainSelector ds of None \<Rightarrow> ''main'' | Some s \<Rightarrow> s))
                (parseHtml h html) = None
          \<longrightarrow> isl (page_entry h ds distDir pn)"
    using page_entry_no_main by blast
  show ?thesis
  proof (intro exI conjI)
    show "sorted_paths (isMatch h) (weight h) ds pages = Inr sorted_pns" by (rule s(1))
    show "mset sorted_pns = mset ?m" by (rule s(2))
    show "processDocSet h distDir sep pages ds = Inr ?art" by (rule p)
    show "outPath ?art = path_join h [distDir, strip_leading_slash (ds_url ds)]" by simp
    show "entries ?art = ?es" by simp
    show "console ?art = ?con @ [ConsoleLog (generated_message (ds_title ds) (outPath ?art))]"
      by simp
    show "length (entries ?art) + length (filter ?fail ?m) = length ?m" using n by simp
    show "content ?art = ''<SYSTEM>'' @ ds_description ds @ ''</SYSTEM>'' @ newline2
                       @ join_with sep (entries ?art)" by simp
    show "\<forall>pn. readFile h (htmlPath_of h distDir pn) = None \<longrightarrow> isl (page_entry h ds distDir pn)"
      by (rule f1)
    show "\<forall>pn html. readFile h (htmlPath_of h distDir pn) = Some html
           \<and> query_first (selects h (case ds_mainSelector ds of None \<Rightarrow> ''main'' | Some s \<Rightarrow> s))
                (parseHtml h html) = None
          \<longrightarrow> isl (page_entry h ds distDir pn)"
      by (rule f2)
  qed
qed

lemma ranked_sorted:
  "sorted_paths literal_match code_unit_weight ranked_set ranked_pages
     = Inr [''docs/c'', ''docs/b'', ''docs/d'', ''docs/a'']"
  by code_simp

lemma ranked_entry_a:
  "page_entry sample_host ranked_set ''dist'' ''docs/a'' = Inr (''# Page A'' @ newline2 @ ''introbodysecond'')"
  by code_simp

lemma ranked_entry_d:
  "page_entry sample_host ranked_set ''dist'' ''docs/d'' = Inr (''# Untitled'' @ newline2 @ ''only text'')"
  by code_simp

lemma ranked_entry_b:
  "page_entry sample_host ranked_set ''dist'' ''docs/b'' = Inl (FileNotFound ''dist/docs/b/index.html'')"
  by code_simp

lemma ranked_entry_c:
  "page_entry sample_host ranked_set ''dist'' ''docs/c'' = Inl (MissingMainSelector ''main'')"
  by code_simp


lemma sample_host_fields:
  "isMatch sample_host = literal_match" "weight sample_host = code_unit_weight"
  by (simp_all add: sample_host_def)

lemma ranked_paths:
  "htmlPath_of sample_host ''dist'' ''docs/b'' = ''dist/docs/b/index.html''"
  "htmlPath_of sample_host ''dist'' ''docs/c'' = ''dist/docs/c/index.html''"
  "path_join sample_host [''dist'', strip_leading_slash (ds_url ranked_set)] = ''dist/llms-full.txt''"
  "ds_title ranked_set = ''Docs''"
  by code_simp+

lemma ranked_no_file: "readFile sample_host (htmlPath_of sample_host ''dist'' ''docs/b'') = None"
  by code_simp

lemma ranked_no_main:
  "readFile sample_host (htmlPath_of sample_host ''dist'' ''docs/c'') = Some ''dist/docs/c/index.html''
   \<and> query_first (selects sample_host (case ds_mainSelector ranked_set of None \<Rightarrow> ''main'' | Some s \<Rightarrow> s))
        (parseHtml sample_host ''dist/docs/c/index.html'') = None"
  by code_simp

theorem failed_pages_are_skipped_witness:
  "\<exists>art. processDocSet sample_host ''dist'' ''|'' ranked_pages ranked_set = Inr art
     \<and> entries art = [''# Untitled'' @ newline2 @ ''only text'',
                       ''# Page A'' @ newline2 @ ''introbodysecond'']
     \<and> console art = [ConsoleError (not_found_prefix @ ''dist/docs/c/index.html''),
                       ConsoleError (not_found_prefix @ ''dist/docs/b/index.html''),
                       ConsoleLog (generated_message ''Docs'' ''dist/llms-full.txt'')]
     \<and> isl (page_entry sample_host ranked_set ''dist'' ''docs/b'')
     \<and> isl (page_entry sample_host ranked_set ''dist'' ''docs/c'')"
proof -
  from failed_pages_are_skipped [of sample_host ranked_set ranked_pages "''dist''" "''|''"]
  obtain sorted_pns art where
    s: "sorted_paths (isMatch sample_host) (weight sample_host) ranked_set ranked_pages = Inr sorted_pns"
    and p: "processDocSet sample_host ''dist'' ''|'' ranked_pages ranked_set = Inr art"
    and out: "outPath art = path_join sample_host [''dist'', strip_leading_slash (ds_url ranked_set)]"
    and es: "entries art = map projr (filter (\<lambda>r. \<not> isl r)
               (map (page_entry sample_host ranked_set ''dist'') sorted_pns))"
    and con: "console art =
         map (\<lambda>pn. ConsoleError (not_found_prefix @ htmlPath_of sample_host ''dist'' pn))
             (filter (\<lambda>pn. isl (page_entry sample_host ranked_set ''dist'' pn)) sorted_pns)
         @ [ConsoleLog (generated_message (ds_title ranked_set) (outPath art))]"
    and f1: "\<forall>pn. readFile sample_host (htmlPath_of sample_host ''dist'' pn) = None
               \<longrightarrow> isl (page_entry sample_host ranked_set ''dist'' pn)"
    and f2: "\<forall>pn html. readFile sample_host (htmlPath_of sample_host ''dist'' pn) = Some html
           \<and> query_first (selects sample_host
                  (case ds_mainSelector ranked_set of None \<Rightarrow> ''main'' | Some s \<Rightarrow> s))
                (parseHtml sample_host html) = None
          \<longrightarrow> isl (page_entry sample_host ranked_set ''dist'' pn)"
    by blast
  from s have sorted_pns: "sorted_pns = [''docs/c'', ''docs/b'', ''docs/d'', ''docs/a'']"
    by (simp add: sample_host_fields ranked_sorted)
  from f1 ranked_no_file have b: "isl (page_entry sample_host ranked_set ''dist'' ''docs/b'')"
    by blast
  from f2 ranked_no_main have c: "isl (page_entry sample_host ranked_set ''dist'' ''docs/c'')"
    by blast
  from es have 1: "entries art = [''# Untitled'' @ newline2 @ ''only text'',
                       ''# Page A'' @ newline2 @ ''introbodysecond'']"
    by (simp add: sorted_pns ranked_entry_a ranked_entry_b ranked_entry_c ranked_entry_d)
  from con have 2: "console art = [ConsoleError (not_found_prefix @ ''dist/docs/c/index.html''),
                       ConsoleError (not_found_prefix @ ''dist/docs/b/index.html''),
                       ConsoleLog (generated_message ''Docs'' ''dist/llms-full.txt'')]"
    by (simp add: sorted_pns out ranked_entry_a ranked_entry_b ranked_entry_c ranked_entry_d
        ranked_paths)
  from p 1 2 b c show ?thesis by blast
qed

subsection \<open>The accessibility transformer\<close>

lemma prune_cons_subset:
  "set (subtrees (prune c test (n # ns)))
     \<subseteq> (if test n then {} else {case n of HRoot cs \<Rightarrow> HRoot (prune c test cs)
                                    | HElement t p cs \<Rightarrow> HElement t p (prune c test cs)
                                    | _ \<Rightarrow> n})
        \<union> set (subtrees (prune c test (hchildren n))) \<union> set (subtrees (prune c test ns))"
  by (cases n) (auto simp: Let_def)

lemma prune_cons_cases:
  assumes "m \<in> set (subtrees (prune c test (n # ns)))"
  shows "(\<not> test n \<and> shell m = shell n)
         \<or> m \<in> set (subtrees (prune c test (hchildren n)))
         \<or> m \<in> set (subtrees (prune c test ns))"
proof -
  let ?k = "case n of HRoot cs \<Rightarrow> HRoot (prune c test cs)
                    | HElement t p cs \<Rightarrow> HElement t p (prune c test cs)
                    | _ \<Rightarrow> n"
  have k: "shell ?k = shell n" by (cases n) simp_all
  from assms prune_cons_subset [of c test n ns]
  have "m \<in> (if test n then {} else {?k})
        \<union> set (subtrees (prune c test (hchildren n))) \<union> set (subtrees (prune c test ns))"
    by (rule subsetD [rotated])
  then consider "m \<in> (if test n then {} else {?k})"
    | "m \<in> set (subtrees (prune c test (hchildren n)))"
    | "m \<in> set (subtrees (prune c test ns))"
    by blast
  then show ?thesis
  proof cases
    case 1
    then have "\<not> test n" "m = ?k" by (simp_all split: if_splits)
    with k show ?thesis by simp
  next
    case 2
    then show ?thesis by blast
  next
    case 3
    then show ?thesis by blast
  qed
qed

lemma prune_clean_step:
  assumes sh: "\<And>n. test (shell n) = test n"
    and cs: "\<forall>m \<in> set (subtrees (prune c test (hchildren n))). \<not> test m"
    and ns: "\<forall>m \<in> set (subtrees (prune c test ns)). \<not> test m"
  shows "\<forall>m \<in> set (subtrees (prune c test (n # ns))). \<not> test m"
proof
  fix m
  assume "m \<in> set (subtrees (prune c test (n # ns)))"
  from prune_cons_cases [OF this] consider "\<not> test n \<and> shell m = shell n"
    | "m \<in> set (subtrees (prune c test (hchildren n)))"
    | "m \<in> set (subtrees (prune c test ns))"
    by blast
  then show "\<not> test m"
  proof cases
    case 1
    then have "test m = test n" using sh [of m] sh [of n] by metis
    with 1 show ?thesis by blast
  next
    case 2
    with cs show ?thesis by blast
  next
    case 3
    with ns show ?thesis by blast
  qed
qed

lemma prune_clean:
  assumes sh: "\<And>n. test (shell n) = test n"
  shows "\<forall>m \<in> set (subtrees (prune c test ns)). \<not> test m"
proof (induction ns rule: subtrees.induct)
  case 1
  show ?case by simp
next
  case (2 cs ns)
  have a: "\<forall>m \<in> set (subtrees (prune c test (hchildren (HRoot cs)))). \<not> test m"
    using "2.IH"(1) by simp
  show ?case using sh a "2.IH"(2) by (rule prune_clean_step)
next
  case (3 t p cs ns)
  have a: "\<forall>m \<in> set (subtrees (prune c test (hchildren (HElement t p cs)))). \<not> test m"
    using "3.IH"(1) by simp
  show ?case using sh a "3.IH"(2) by (rule prune_clean_step)
next
  case (4 v ns)
  have a: "\<forall>m \<in> set (subtrees (prune c test (hchildren (HText v)))). \<not> test m" by simp
  show ?case using sh a "4.IH" by (rule prune_clean_step)
next
  case (5 s ns)
  have a: "\<forall>m \<in> set (subtrees (prune c test (hchildren (HComment s)))). \<not> test m" by simp
  show ?case using sh a "5.IH" by (rule prune_clean_step)
next
  case (6 ns)
  have a: "\<forall>m \<in> set (subtrees (prune c test (hchildren HDoctype))). \<not> test m" by simp
  show ?case using sh a "6.IH" by (rule prune_clean_step)
qed

lemma forest_induct:
  assumes "P []" and "\<And>n ns. P (hchildren n) \<Longrightarrow> P ns \<Longrightarrow> P (n # ns)"
  shows "P ns"
proof (induction ns rule: subtrees.induct)
  case 1
  show ?case by (rule assms(1))
next
  case (2 cs ns)
  then show ?case using assms(2) [of "HRoot cs" ns] by simp
next
  case (3 t p cs ns)
  then show ?case using assms(2) [of "HElement t p cs" ns] by simp
next
  case (4 v ns)
  then show ?case using assms(1) assms(2) [of "HText v" ns] by simp
next
  case (5 s ns)
  then show ?case using assms(1) assms(2) [of "HComment s" ns] by simp
next
  case (6 ns)
  then show ?case using assms(1) assms(2) [of HDoctype ns] by simp
qed

lemma subtrees_cons:
  "set (subtrees (n # ns)) = insert n (set (subtrees (hchildren n)) \<union> set (subtrees ns))"
  by (cases n) auto

lemma prune_keep:
  assumes "\<not> test n" and "prune c test (hchildren n) = hchildren n"
  shows "prune c test (n # ns) = n # prune c test ns"
  using assms by (cases n) (simp_all add: Let_def)

lemma prune_id:
  "\<forall>m \<in> set (subtrees ns). \<not> test m \<Longrightarrow> prune c test ns = ns"
proof (induction ns rule: forest_induct)
  case 1
  show ?case by simp
next
  case (2 n ns)
  from "2.prems" have n: "\<not> test n"
    and cs: "\<forall>m \<in> set (subtrees (hchildren n)). \<not> test m"
    and ns: "\<forall>m \<in> set (subtrees ns). \<not> test m"
    by (simp_all add: subtrees_cons)
  from "2.IH"(1) cs have "prune c test (hchildren n) = hchildren n" by blast
  with n have "prune c test (n # ns) = n # prune c test ns" by (rule prune_keep)
  moreover from "2.IH"(2) ns have "prune c test ns = ns" by blast
  ultimately show ?case by simp
qed

lemma prune_shells:
  "\<forall>m \<in> set (subtrees (prune c test ns)). \<exists>m' \<in> set (subtrees ns). shell m' = shell m"
proof (induction ns rule: forest_induct)
  case 1
  show ?case by simp
next
  case (2 n ns)
  show ?case
  proof
    fix m
    assume "m \<in> set (subtrees (prune c test (n # ns)))"
    from prune_cons_cases [OF this] consider "shell m = shell n"
      | "m \<in> set (subtrees (prune c test (hchildren n)))"
      | "m \<in> set (subtrees (prune c test ns))"
      by blast
    then show "\<exists>m' \<in> set (subtrees (n # ns)). shell m' = shell m"
    proof cases
      case 1
      then show ?thesis by (simp add: subtrees_cons)
    next
      case 2
      with "2.IH"(1) obtain m' where "m' \<in> set (subtrees (hchildren n))" "shell m' = shell m"
        by blast
      then show ?thesis unfolding subtrees_cons by blast
    next
      case 3
      with "2.IH"(2) obtain m' where "m' \<in> set (subtrees ns)" "shell m' = shell m"
        by blast
      then show ?thesis unfolding subtrees_cons by blast
    qed
  qed
qed

lemma prune_keeps_clean:
  assumes sh: "\<And>n. other (shell n) = other n"
    and clean: "\<forall>m \<in> set (subtrees ns). \<not> other m"
  shows "\<forall>m \<in> set (subtrees (prune c test ns)). \<not> other m"
proof
  fix m
  assume "m \<in> set (subtrees (prune c test ns))"
  with prune_shells obtain m' where m': "m' \<in> set (subtrees ns)" "shell m' = shell m"
    by blast
  have "other m = other m'" using sh [of m] sh [of m'] m'(2) by metis
  with clean m'(1) show "\<not> other m" by blast
qed

lemma relabel_idem: "relabel (relabel n) = relabel n"
proof (induction n rule: relabel.induct)
  case (1 cs)
  then have "map relabel (map relabel cs) = map relabel cs" by (induction cs) simp_all
  then show ?case by simp
next
  case (2 t p cs)
  show ?case
  proof (cases "ariaLabelValue p")
    case None
    with 2 have "map relabel (map relabel cs) = map relabel cs" by (induction cs) simp_all
    with None show ?thesis by simp
  next
    case (Some v)
    then show ?thesis by simp
  qed
next
  case (3 v)
  show ?case by simp
next
  case (4 s)
  show ?case by simp
next
  case 5
  show ?case by simp
qed

lemma relabel_shell: "shell (relabel n) = shell n"
  by (cases n) (simp_all split: option.splits)


lemma relabel_children:
  "hchildren (relabel n) =
     (case label_of n of Some v \<Rightarrow> [HText v] | None \<Rightarrow> map relabel (hchildren n))"
  by (cases n) (simp_all add: label_of_def split: option.splits)



lemma relabel_forest_cases:
  assumes "m \<in> set (subtrees (map relabel (n # ns)))"
  shows "m = relabel n
         \<or> (\<exists>v. label_of n = Some v \<and> m = HText v)
         \<or> (label_of n = None \<and> m \<in> set (subtrees (map relabel (hchildren n))))
         \<or> m \<in> set (subtrees (map relabel ns))"
proof -
  from assms have "m = relabel n \<or> m \<in> set (subtrees (hchildren (relabel n)))
      \<or> m \<in> set (subtrees (map relabel ns))"
    by (simp add: subtrees_cons)
  then show ?thesis
    by (cases "label_of n") (auto simp: relabel_children)
qed


lemma relabel_forest_shells:
  "\<forall>m \<in> set (subtrees (map relabel ns)).
     (\<exists>m' \<in> set (subtrees ns). shell m' = shell m) \<or> (\<exists>v. m = HText v)"
proof (induction ns rule: forest_induct)
  case 1
  show ?case by simp
next
  case (2 n ns)
  show ?case
  proof
    fix m
    assume m: "m \<in> set (subtrees (map relabel (n # ns)))"
    from relabel_forest_cases [OF m] consider "m = relabel n"
      | "\<exists>u. m = HText u"
      | "m \<in> set (subtrees (map relabel (hchildren n)))"
      | "m \<in> set (subtrees (map relabel ns))"
      by blast
    then show "(\<exists>m' \<in> set (subtrees (n # ns)). shell m' = shell m) \<or> (\<exists>v. m = HText v)"
    proof cases
      case 1
      then have "shell n = shell m" by (simp add: relabel_shell)
      then show ?thesis by (auto simp: subtrees_cons)
    next
      case 2
      then show ?thesis by blast
    next
      case 3
      with "2.IH"(1) show ?thesis unfolding subtrees_cons by blast
    next
      case 4
      with "2.IH"(2) show ?thesis unfolding subtrees_cons by blast
    qed
  qed
qed

lemma children_remove: "hchildren (remove c test t) = prune c test (hchildren t)"
  by (cases t) (simp_all add: remove_def)

lemma descendants_remove:
  "descendants (remove c test t) = subtrees (prune c test (hchildren t))"
  by (simp add: descendants_def children_remove)


lemma remove_id:
  assumes "\<forall>m \<in> set (descendants t). \<not> test m"
  shows "remove c test t = t"
proof -
  from assms have "prune c test (hchildren t) = hchildren t"
    unfolding descendants_def by (rule prune_id)
  then show ?thesis by (cases t) (simp_all add: remove_def)
qed

lemma remove_clean:
  assumes "\<And>n. test (shell n) = test n"
  shows "\<forall>m \<in> set (descendants (remove c test t)). \<not> test m"
  unfolding descendants_remove using assms by (rule prune_clean)


lemma remove_keeps_clean:
  assumes "\<And>n. other (shell n) = other n"
    and "\<forall>m \<in> set (descendants t). \<not> other m"
  shows "\<forall>m \<in> set (descendants (remove c test t)). \<not> other m"
  using assms unfolding descendants_def children_remove by (rule prune_keeps_clean)


lemma relabel_shells:
  "\<forall>m \<in> set (descendants (relabel t)).
     (\<exists>m' \<in> set (descendants t). shell m' = shell m) \<or> (\<exists>v. m = HText v)"
proof
  fix m
  assume "m \<in> set (descendants (relabel t))"
  then have m: "m \<in> set (subtrees (hchildren (relabel t)))" by (simp add: descendants_def)
  show "(\<exists>m' \<in> set (descendants t). shell m' = shell m) \<or> (\<exists>v. m = HText v)"
  proof (cases "label_of t")
    case None
    with m have "m \<in> set (subtrees (map relabel (hchildren t)))" by (simp add: relabel_children)
    with relabel_forest_shells show ?thesis unfolding descendants_def by blast
  next
    case (Some v)
    with m have "m = HText v" by (simp add: relabel_children)
    then show ?thesis by blast
  qed
qed

lemma relabel_keeps_clean:
  assumes sh: "\<And>n. other (shell n) = other n"
    and tx: "\<And>v. \<not> other (HText v)"
    and clean: "\<forall>m \<in> set (descendants t). \<not> other m"
  shows "\<forall>m \<in> set (descendants (relabel t)). \<not> other m"
proof
  fix m
  assume "m \<in> set (descendants (relabel t))"
  with relabel_shells consider m' where "m' \<in> set (descendants t)" "shell m' = shell m"
    | v where "m = HText v"
    by blast
  then show "\<not> other m"
  proof cases
    case 1
    have "other m = other m'" using sh [of m] sh [of m'] 1(2) by metis
    with clean 1(1) show ?thesis by blast
  next
    case 2
    with tx show ?thesis by simp
  qed
qed



lemma aria_hidden_shell: "aria_hidden (shell n) = aria_hidden n"
  by (cases n) (simp_all add: aria_hidden_def)

lemma decorative_img_shell: "decorative_img (shell n) = decorative_img n"
  by (cases n) (simp_all add: decorative_img_def)

lemma aria_hidden_text: "\<not> aria_hidden (HText v)"
  by (simp add: aria_hidden_def)

lemma decorative_img_text: "\<not> decorative_img (HText v)"
  by (simp add: decorative_img_def)

lemma transformer_no_hidden:
  "\<forall>m \<in> set (descendants (accessibilityTransformer t)). \<not> aria_hidden m"
  unfolding accessibilityTransformer_def
  by (intro relabel_keeps_clean remove_keeps_clean remove_clean
        aria_hidden_shell aria_hidden_text)

lemma transformer_no_decorative:
  "\<forall>m \<in> set (descendants (accessibilityTransformer t)). \<not> decorative_img m"
  unfolding accessibilityTransformer_def
  by (intro relabel_keeps_clean remove_clean decorative_img_shell decorative_img_text)






























text \<open>
  Claim C7. The transformer is idempotent: applied to its own result it changes
  nothing, for every tree.
\<close>

theorem accessibilityTransformer_idempotent:
  "accessibilityTransformer (accessibilityTransformer t) = accessibilityTransformer t"
proof -
  let ?r = "accessibilityTransformer t"
  have h: "remove True aria_hidden ?r = ?r"
    using transformer_no_hidden [of t] by (rule remove_id)
  have d: "remove True decorative_img ?r = ?r"
    using transformer_no_decorative [of t] by (rule remove_id)
  have l: "relabel ?r = ?r"
    by (simp add: accessibilityTransformer_def relabel_idem)
  have "accessibilityTransformer ?r = relabel (remove True decorative_img (remove True aria_hidden ?r))"
    by (simp only: accessibilityTransformer_def)
  also have "\<dots> = relabel (remove True decorative_img ?r)" by (simp only: h)
  also have "\<dots> = relabel ?r" by (simp only: d)
  also have "\<dots> = ?r" by (rule l)
  finally show ?thesis .
qed

theorem accessibilityTransformer_idempotent_witness:
  "accessibilityTransformer (accessibilityTransformer sample_tree)
     = accessibilityTransformer sample_tree"
  by (rule accessibilityTransformer_idempotent)

end
